theory Spec2Isabelle
  imports Main "HOL-Library.Word" "HOL-Library.Sublist"
begin

section \<open>Scenario configuration (internal/tracegen/config.go)\<close>

text \<open>
  Go's \<open>int\<close> and \<open>time.Duration\<close> (an \<open>int64\<close> count of nanoseconds) are modelled as
  \<open>int\<close>. The only arithmetic the file performs on them is the increment \<open>i++\<close> of the
  spawn loop, which runs under the guard \<open>i < c.Workers\<close> and so never leaves the range
  of the machine type; every other use is a comparison with \<open>0\<close>.
\<close>

type_synonym duration = int

definition Microsecond :: duration where
  "Microsecond = 1000"

record Config =
  Workers :: int
  Traces :: int
  Marshal :: bool
  Debug :: bool
  Firehose :: bool
  Pause :: duration
  Duration :: duration
  Service :: string
  TraceExporter :: string

subsection \<open>Flag registration (lines 41-51)\<close>

text \<open>
  The pointers \<open>&c.Workers\<close>, ... handed to the flag set are modelled as typed field
  selectors. A registered flag keeps its name, its usage text, its default and the field
  it is bound to. \<open>fs.IntVar(p, name, value, usage)\<close> of package \<open>flag\<close> first stores
  \<open>value\<close> through \<open>p\<close> and then adds the flag, panicking when the name is already
  defined in the set.
\<close>

datatype int_field = Workers_ptr | Traces_ptr
datatype bool_field = Marshal_ptr | Debug_ptr | Firehose_ptr
datatype duration_field = Pause_ptr | Duration_ptr
datatype string_field = Service_ptr | TraceExporter_ptr

datatype flag_value =
    IntValue int_field int
  | BoolValue bool_field bool
  | DurationValue duration_field duration
  | StringValue string_field string

record Flag =
  Name :: string
  Usage :: string
  Value :: flag_value

type_synonym FlagSet = "Flag list"

datatype panic = Flag_redefined string

fun store_int :: "int_field \<Rightarrow> int \<Rightarrow> Config \<Rightarrow> Config" where
  "store_int Workers_ptr v c = c\<lparr>Workers := v\<rparr>"
| "store_int Traces_ptr v c = c\<lparr>Traces := v\<rparr>"

fun store_bool :: "bool_field \<Rightarrow> bool \<Rightarrow> Config \<Rightarrow> Config" where
  "store_bool Marshal_ptr v c = c\<lparr>Marshal := v\<rparr>"
| "store_bool Debug_ptr v c = c\<lparr>Debug := v\<rparr>"
| "store_bool Firehose_ptr v c = c\<lparr>Firehose := v\<rparr>"

fun store_duration :: "duration_field \<Rightarrow> duration \<Rightarrow> Config \<Rightarrow> Config" where
  "store_duration Pause_ptr v c = c\<lparr>Pause := v\<rparr>"
| "store_duration Duration_ptr v c = c\<lparr>Duration := v\<rparr>"

fun store_string :: "string_field \<Rightarrow> string \<Rightarrow> Config \<Rightarrow> Config" where
  "store_string Service_ptr v c = c\<lparr>Service := v\<rparr>"
| "store_string TraceExporter_ptr v c = c\<lparr>TraceExporter := v\<rparr>"

definition Var :: "flag_value \<Rightarrow> string \<Rightarrow> string \<Rightarrow> Config \<times> FlagSet \<Rightarrow> panic + Config \<times> FlagSet" where
  "Var v n u st =
     (case st of (c, fs) \<Rightarrow>
        if n \<in> set (map Name fs) then Inl (Flag_redefined n)
        else Inr (c, fs @ [\<lparr>Name = n, Usage = u, Value = v\<rparr>]))"

definition IntVar :: "int_field \<Rightarrow> string \<Rightarrow> int \<Rightarrow> string \<Rightarrow> Config \<times> FlagSet \<Rightarrow> panic + Config \<times> FlagSet" where
  "IntVar p n v u st = (case st of (c, fs) \<Rightarrow> Var (IntValue p v) n u (store_int p v c, fs))"

definition BoolVar :: "bool_field \<Rightarrow> string \<Rightarrow> bool \<Rightarrow> string \<Rightarrow> Config \<times> FlagSet \<Rightarrow> panic + Config \<times> FlagSet" where
  "BoolVar p n v u st = (case st of (c, fs) \<Rightarrow> Var (BoolValue p v) n u (store_bool p v c, fs))"

definition DurationVar :: "duration_field \<Rightarrow> string \<Rightarrow> duration \<Rightarrow> string \<Rightarrow> Config \<times> FlagSet \<Rightarrow> panic + Config \<times> FlagSet" where
  "DurationVar p n v u st = (case st of (c, fs) \<Rightarrow> Var (DurationValue p v) n u (store_duration p v c, fs))"

definition StringVar :: "string_field \<Rightarrow> string \<Rightarrow> string \<Rightarrow> string \<Rightarrow> Config \<times> FlagSet \<Rightarrow> panic + Config \<times> FlagSet" where
  "StringVar p n v u st = (case st of (c, fs) \<Rightarrow> Var (StringValue p v) n u (store_string p v c, fs))"

text \<open>Sequencing of statements that may panic: the first panic ends the call.\<close>

definition andThen :: "panic + 'a \<Rightarrow> ('a \<Rightarrow> panic + 'b) \<Rightarrow> panic + 'b" where
  "andThen r f = (case r of Inl p \<Rightarrow> Inl p | Inr x \<Rightarrow> f x)"

definition Flags :: "Config \<Rightarrow> FlagSet \<Rightarrow> panic + Config \<times> FlagSet" where
  "Flags c fs =
     andThen (andThen (andThen (andThen (andThen (andThen (andThen
       (IntVar Workers_ptr ''workers'' 1 ''Number of workers (goroutines) to run'' (c, fs))
       (IntVar Traces_ptr ''traces'' 1
          ''Number of traces to generate in each worker (ignored if duration is provided''))
       (BoolVar Debug_ptr ''debug'' False
          ''Whether to set DEBUG flag on the spans to force sampling''))
       (BoolVar Firehose_ptr ''firehose'' False
          ''Whether to set FIREHOSE flag on the spans to skip indexing''))
       (DurationVar Pause_ptr ''pause'' Microsecond ''How long to pause before finishing trace''))
       (DurationVar Duration_ptr ''duration'' 0 ''For how long to run the test''))
       (StringVar Service_ptr ''service'' ''tracegen'' ''Service name to use''))
       (StringVar TraceExporter_ptr ''trace-exporter'' ''jaeger''
          ''Trace exporter (jaeger|otlp-grpc|otlp-http|stdout). Exporters can be additionally configured via environment variables, see https://github.com/jaegertracing/jaeger/blob/main/cmd/tracegen/README.md'')"

text \<open>The name and default of every flag of a set, in registration order.\<close>

definition options :: "FlagSet \<Rightarrow> (string \<times> flag_value) list" where
  "options fs = map (\<lambda>f. (Name f, Value f)) fs"

section \<open>The run coordinator and its workers\<close>

subsection \<open>Data\<close>

datatype error = Errorf string

text \<open>
  A \<open>*zap.Logger\<close> is the caller's logger together with the fields attached to it by
  \<open>With\<close>; \<open>zap.Int(key, n)\<close> is the pair \<open>(key, n)\<close>.
\<close>

datatype 'l Logger = Logger 'l "(string \<times> int) list"

fun With :: "'l Logger \<Rightarrow> string \<times> int \<Rightarrow> 'l Logger" where
  "With (Logger l fs) f = Logger l (fs @ [f])"

text \<open>
  A pointer is nil or an address. One call of \<open>Run\<close> keeps its locals \<open>running\<close> and
  \<open>wg\<close> at two addresses of its frame; \<open>&running\<close> and \<open>&wg\<close> are these addresses.
\<close>

datatype pointer = Nil | Addr nat

definition Addr_running :: pointer where
  "Addr_running = Addr 0"

definition Addr_wg :: pointer where
  "Addr_wg = Addr 1"

text \<open>The struct literal of lines 65-77 fixes the fields of \<open>worker\<close>.\<close>

record ('t, 'l) worker =
  id_w :: int
  tracer :: 't
  traces :: int
  marshal :: bool
  debug :: bool
  firehose :: bool
  pause :: duration
  duration :: duration
  running :: pointer
  wg :: pointer
  logger :: "'l Logger"

text \<open>
  Modelled from the spec: the synthetic trace of section 4.3, whose code
  (\<open>worker.simulateTraces\<close>) is not part of the file. One iteration makes the tracer
  accept a root span \<open>lead\<close> and its children \<open>sub1\<close> and \<open>sub2\<close>, each tagged with the
  worker's debug and firehose flags.
\<close>

record span =
  span_name :: string
  parent :: "string option"
  attr_debug :: bool
  attr_firehose :: bool

definition synthetic_trace :: "bool \<Rightarrow> bool \<Rightarrow> span list" where
  "synthetic_trace d f =
     [\<lparr>span_name = ''lead'', parent = None, attr_debug = d, attr_firehose = f\<rparr>,
      \<lparr>span_name = ''sub1'', parent = Some ''lead'', attr_debug = d, attr_firehose = f\<rparr>,
      \<lparr>span_name = ''sub2'', parent = Some ''lead'', attr_debug = d, attr_firehose = f\<rparr>]"

text \<open>Everything a run does that is visible outside the acting thread, in order.\<close>

datatype event =
    Init_running "32 word"
  | Wg_add int
  | Go int
  | Sleep duration
  | Store_running "32 word"
  | Wg_wait
  | Return "error option"
  | Emit int "span list"
  | Wg_done int

text \<open>
  Modelled from the spec: the states of a worker (section 4.3): at the loop condition,
  inside an iteration, pausing after it, terminated.
\<close>

datatype phase = Check | InFlight | Pausing | Terminated

record ('t, 'l) thread =
  self :: "('t, 'l) worker"
  iterationCounter :: int
  phase :: phase

text \<open>
  The coordinator's position, by the line of \<open>config.go\<close> it is about to execute, and
  the state of one call: the configuration object \<open>c\<close> points to, the other two
  arguments, the locals \<open>i\<close>, \<open>running\<close> and \<open>wg\<close>, the goroutines started and the
  history. Before line 61 the locals do not exist; the state holds \<open>0\<close> for them
  there, and nothing reads them before the step of line 61 has assigned them.
\<close>

datatype label = L55 | L61 | L63 | L81 | L83 | L85 | Returned "error option"

record ('t, 'l) Run_state =
  conf :: Config
  arg_tracer :: 't
  arg_logger :: "'l Logger"
  pc :: label
  i_local :: int
  running_local :: "32 word"
  wg_local :: int
  threads :: "('t, 'l) thread list"
  history :: "event list"

definition Run_init :: "Config \<Rightarrow> 't \<Rightarrow> 'l Logger \<Rightarrow> ('t, 'l) Run_state" where
  "Run_init c tr lg =
     \<lparr>conf = c, arg_tracer = tr, arg_logger = lg, pc = L55, i_local = 0,
      running_local = 0, wg_local = 0, threads = [], history = []\<rparr>"

subsection \<open>The coordinator\<close>

definition new_worker :: "('t, 'l) Run_state \<Rightarrow> ('t, 'l) worker" where
  "new_worker s =
     \<lparr>id_w = i_local s, tracer = arg_tracer s, traces = Traces (conf s),
      marshal = Marshal (conf s), debug = Debug (conf s), firehose = Firehose (conf s),
      pause = Pause (conf s), duration = Duration (conf s),
      running = Addr_running, wg = Addr_wg,
      logger = With (arg_logger s) (''worker'', i_local s)\<rparr>"

definition InvalidConfiguration :: error where
  "InvalidConfiguration = Errorf ''either `traces` or `duration` must be greater than 0''"

text \<open>
  One step of \<open>Run\<close>. \<open>L55\<close> is the validation of lines 55-59, \<open>L61\<close> the declarations of
  lines 61-62 with the loop's \<open>i := 0\<close>, \<open>L63\<close> one test of the loop condition with the
  body of lines 64-79 when it holds, \<open>L81\<close> the test of line 81 with the sleep of line 82,
  \<open>L83\<close> the store of line 83, \<open>L85\<close> the wait of line 85 with the return of line 86.
  \<open>wg.Wait()\<close> blocks while the counter is not zero: the step is then not enabled.
\<close>

definition Run_step :: "('t, 'l) Run_state \<Rightarrow> ('t, 'l) Run_state option" where
  "Run_step s =
     (case pc s of
        L55 \<Rightarrow>
          if Duration (conf s) > 0 then Some (s\<lparr>conf := (conf s)\<lparr>Traces := 0\<rparr>, pc := L61\<rparr>)
          else if Traces (conf s) \<le> 0 then
            Some (s\<lparr>pc := Returned (Some InvalidConfiguration),
                    history := history s @ [Return (Some InvalidConfiguration)]\<rparr>)
          else Some (s\<lparr>pc := L61\<rparr>)
      | L61 \<Rightarrow>
          Some (s\<lparr>wg_local := 0, running_local := 1, i_local := 0, pc := L63,
                  history := history s @ [Init_running 1]\<rparr>)
      | L63 \<Rightarrow>
          if i_local s < Workers (conf s) then
            Some (s\<lparr>wg_local := wg_local s + 1,
                    threads := threads s @ [\<lparr>self = new_worker s, iterationCounter = 0, phase = Check\<rparr>],
                    i_local := i_local s + 1,
                    history := history s @ [Wg_add 1, Go (i_local s)]\<rparr>)
          else Some (s\<lparr>pc := L81\<rparr>)
      | L81 \<Rightarrow>
          if Duration (conf s) > 0 then
            Some (s\<lparr>pc := L83, history := history s @ [Sleep (Duration (conf s))]\<rparr>)
          else Some (s\<lparr>pc := L85\<rparr>)
      | L83 \<Rightarrow>
          Some (s\<lparr>running_local := 0, pc := L85, history := history s @ [Store_running 0]\<rparr>)
      | L85 \<Rightarrow>
          if wg_local s = 0 then
            Some (s\<lparr>pc := Returned None, history := history s @ [Wg_wait, Return None]\<rparr>)
          else None
      | Returned r \<Rightarrow> None)"

subsection \<open>The worker\<close>

text \<open>
  Modelled from the spec: the loop condition of section 4.3, a function of the planned
  iteration count, the iteration counter and the value read from the shared flag (true
  is the \<open>1\<close> the coordinator initialises it to). The spec's formula is read the way its
  own explanation requires: in duration mode (\<open>plannedIterations = 0\<close>) the loop runs
  until the flag is false, in count mode it runs \<open>plannedIterations\<close> times regardless
  of the flag.
\<close>

definition loop_condition :: "int \<Rightarrow> int \<Rightarrow> 32 word \<Rightarrow> bool" where
  "loop_condition plannedIterations counter flag \<longleftrightarrow>
     (plannedIterations = 0 \<and> flag = 1) \<or> counter < plannedIterations"

text \<open>
  Modelled from the spec: one step of a worker (section 4.3), given the value of the
  shared flag at that moment. It returns the worker's next state and what the step makes
  visible: at the loop condition the worker enters an iteration or reports completion
  to the join mechanism and terminates; an iteration hands one synthetic trace to the
  tracer; the pause leads back to the loop condition.
\<close>

definition simulateTraces_step ::
    "32 word \<Rightarrow> ('t, 'l) thread \<Rightarrow> (('t, 'l) thread \<times> event list) option" where
  "simulateTraces_step flag t =
     (case phase t of
        Check \<Rightarrow>
          if loop_condition (traces (self t)) (iterationCounter t) flag
          then Some (t\<lparr>phase := InFlight\<rparr>, [])
          else Some (t\<lparr>phase := Terminated\<rparr>, [Wg_done (id_w (self t))])
      | InFlight \<Rightarrow>
          Some (t\<lparr>iterationCounter := iterationCounter t + 1, phase := Pausing\<rparr>,
                [Emit (id_w (self t)) (synthetic_trace (debug (self t)) (firehose (self t)))])
      | Pausing \<Rightarrow> Some (t\<lparr>phase := Check\<rparr>, [])
      | Terminated \<Rightarrow> None)"

subsection \<open>Interleaving\<close>

text \<open>
  The coordinator and the goroutines it started run concurrently: a schedule names, step
  by step, who moves. Worker \<open>k\<close> is the \<open>k\<close>-th goroutine started. Its step reads the
  flag through \<open>w.running\<close> and, when it terminates, decrements the wait group through
  \<open>w.wg\<close>: the step is defined when these two pointers are the addresses of the
  locals of this call. Through any other pointer the worker would act on memory that
  is not the call's, and it has no step here.
\<close>

datatype actor = Coordinator | Worker nat

fun wg_done :: "event list \<Rightarrow> int" where
  "wg_done [] = 0"
| "wg_done (Wg_done k # es) = 1 + wg_done es"
| "wg_done (e # es) = wg_done es"

definition step :: "actor \<Rightarrow> ('t, 'l) Run_state \<Rightarrow> ('t, 'l) Run_state option" where
  "step a s =
     (case a of
        Coordinator \<Rightarrow> Run_step s
      | Worker k \<Rightarrow>
          if k < length (threads s) \<and> running (self (threads s ! k)) = Addr_running
             \<and> wg (self (threads s ! k)) = Addr_wg then
            (case simulateTraces_step (running_local s) (threads s ! k) of
               None \<Rightarrow> None
             | Some (t', es) \<Rightarrow>
                 Some (s\<lparr>threads := (threads s)[k := t'],
                         wg_local := wg_local s - wg_done es,
                         history := history s @ es\<rparr>))
          else None)"

fun exec :: "actor list \<Rightarrow> ('t, 'l) Run_state \<Rightarrow> ('t, 'l) Run_state option" where
  "exec [] s = Some s"
| "exec (a # as) s = (case step a s of None \<Rightarrow> None | Some s' \<Rightarrow> exec as s')"

text \<open>
  The traces the tracer has accepted, the values stored in the flag after its
  initialisation, and the coordinator's own actions.
\<close>

fun emitted :: "event list \<Rightarrow> span list list" where
  "emitted [] = []"
| "emitted (Emit k t # es) = t # emitted es"
| "emitted (e # es) = emitted es"

fun stores :: "event list \<Rightarrow> 32 word list" where
  "stores [] = []"
| "stores (Store_running v # es) = v # stores es"
| "stores (e # es) = stores es"

fun by_worker :: "event \<Rightarrow> bool" where
  "by_worker (Emit k t) = True"
| "by_worker (Wg_done k) = True"
| "by_worker e = False"

definition coordinator_events :: "event list \<Rightarrow> event list" where
  "coordinator_events es = filter (\<lambda>e. \<not> by_worker e) es"

subsection \<open>A worker on its own\<close>

text \<open>
  Modelled from the spec: a worker run by itself (section 4.3). The list gives the value
  the shared flag has at each of the worker's successive steps; the run ends when the
  worker has terminated or the list is used up, and returns the worker's last state with
  everything it made visible.
\<close>

fun simulateTraces :: "32 word list \<Rightarrow> ('t, 'l) thread \<Rightarrow> ('t, 'l) thread \<times> event list" where
  "simulateTraces [] t = (t, [])"
| "simulateTraces (flag # flags) t =
     (case simulateTraces_step flag t of
        None \<Rightarrow> (t, [])
      | Some (t', es) \<Rightarrow> (case simulateTraces flags t' of (t'', es') \<Rightarrow> (t'', es @ es')))"

section \<open>Scenarios\<close>

text \<open>
  Concrete configurations, schedules and workers on which the model is evaluated: the
  scenario examples of the specification (two workers with three traces each; one
  worker with neither traces nor duration; four workers for 200 ms), a configuration
  that sets both a duration and a trace count, and one with a negative worker count.
\<close>

definition invalid_scenario :: Config where
  "invalid_scenario =
     \<lparr>Workers = 1, Traces = 0, Marshal = False, Debug = False, Firehose = False,
      Pause = 1000, Duration = 0, Service = ''tracegen'', TraceExporter = ''jaeger''\<rparr>"

definition count_scenario :: Config where
  "count_scenario =
     \<lparr>Workers = 2, Traces = 3, Marshal = False, Debug = True, Firehose = False,
      Pause = 1000, Duration = 0, Service = ''tracegen'', TraceExporter = ''jaeger''\<rparr>"

definition duration_scenario :: Config where
  "duration_scenario =
     \<lparr>Workers = 4, Traces = 0, Marshal = False, Debug = False, Firehose = False,
      Pause = 1000, Duration = 200000000, Service = ''tracegen'', TraceExporter = ''jaeger''\<rparr>"

definition overriding_scenario :: Config where
  "overriding_scenario =
     \<lparr>Workers = 1, Traces = 5, Marshal = True, Debug = False, Firehose = True,
      Pause = 1000, Duration = 1000000000, Service = ''tracegen'', TraceExporter = ''jaeger''\<rparr>"

definition negative_workers_scenario :: Config where
  "negative_workers_scenario =
     \<lparr>Workers = - 1, Traces = 1, Marshal = False, Debug = False, Firehose = False,
      Pause = 1000, Duration = 0, Service = ''tracegen'', TraceExporter = ''jaeger''\<rparr>"

definition count_schedule :: "actor list" where
  "count_schedule =
     [Coordinator, Coordinator, Coordinator, Coordinator, Coordinator, Coordinator,
      Worker 0, Worker 1,
      Worker 0, Worker 1, Worker 0, Worker 1, Worker 0, Worker 1, Worker 0, Worker 1,
      Worker 0, Worker 1, Worker 0, Worker 1, Worker 0, Worker 1, Worker 0, Worker 1,
      Worker 0, Worker 1, Coordinator]"

definition duration_schedule :: "actor list" where
  "duration_schedule =
     [Coordinator, Coordinator, Coordinator, Coordinator, Coordinator, Coordinator,
      Coordinator, Worker 0, Coordinator, Worker 0, Coordinator, Worker 0, Worker 0,
      Worker 1, Worker 2, Worker 3, Coordinator]"

definition count_worker :: "(unit, unit) thread" where
  "count_worker =
     \<lparr>self = \<lparr>id_w = 0, tracer = (), traces = 2, marshal = False, debug = True,
               firehose = False, pause = 1000, duration = 0, running = Addr_running,
               wg = Addr_wg, logger = Logger () [(''worker'', 0)]\<rparr>,
      iterationCounter = 0, phase = Check\<rparr>"

definition duration_worker :: "(unit, unit) thread" where
  "duration_worker =
     \<lparr>self = \<lparr>id_w = 0, tracer = (), traces = 0, marshal = False, debug = False,
               firehose = False, pause = 1000, duration = 200000000, running = Addr_running,
               wg = Addr_wg, logger = Logger () [(''worker'', 0)]\<rparr>,
      iterationCounter = 4, phase = InFlight\<rparr>"

section \<open>Invariants of a run\<close>

text \<open>
  The count each worker is given: \<open>c.Traces\<close> as it stands after lines 55-56.
\<close>

definition normalised :: "Config \<Rightarrow> int" where
  "normalised c = (if Duration c > 0 then 0 else Traces c)"

definition worker_of :: "Config \<Rightarrow> 't \<Rightarrow> 'l Logger \<Rightarrow> int \<Rightarrow> ('t, 'l) worker" where
  "worker_of c tr lg i =
     \<lparr>id_w = i, tracer = tr, traces = normalised c,
      marshal = Marshal c, debug = Debug c, firehose = Firehose c,
      pause = Pause c, duration = Duration c,
      running = Addr_running, wg = Addr_wg,
      logger = With lg (''worker'', i)\<rparr>"

text \<open>
  The coordinator is sequential, so what it has done so far is a function of its position
  and of the number of goroutines started.
\<close>

definition spawn_events :: "nat \<Rightarrow> event list" where
  "spawn_events n = concat (map (\<lambda>k. [Wg_add 1, Go (int k)]) [0..<n])"

definition timer_events :: "Config \<Rightarrow> event list" where
  "timer_events c = (if Duration c > 0 then [Sleep (Duration c), Store_running 0] else [])"

fun coordinator_trace :: "Config \<Rightarrow> label \<Rightarrow> nat \<Rightarrow> event list" where
  "coordinator_trace c L55 n = []"
| "coordinator_trace c L61 n = []"
| "coordinator_trace c L63 n = Init_running 1 # spawn_events n"
| "coordinator_trace c L81 n = Init_running 1 # spawn_events n"
| "coordinator_trace c L83 n = Init_running 1 # spawn_events n @ [Sleep (Duration c)]"
| "coordinator_trace c L85 n = Init_running 1 # spawn_events n @ timer_events c"
| "coordinator_trace c (Returned None) n =
     Init_running 1 # spawn_events n @ timer_events c @ [Wg_wait, Return None]"
| "coordinator_trace c (Returned (Some e)) n = [Return (Some e)]"


text \<open>
  The invariants, each relative to the configuration, tracer and logger \<open>Run\<close> was
  called with: the arguments and the configuration object; the coordinator's locals and
  its part of the history; the workers' bindings; the wait-group counter, which counts
  the workers that have not terminated; the accepted traces, one per completed
  iteration; and the state at return.
\<close>

definition inv_frame :: "Config \<Rightarrow> 't \<Rightarrow> 'l Logger \<Rightarrow> ('t, 'l) Run_state \<Rightarrow> bool" where
  "inv_frame c tr lg s \<longleftrightarrow>
     arg_tracer s = tr \<and> arg_logger s = lg
     \<and> conf s = (if Duration c > 0 \<and> pc s \<noteq> L55 then c\<lparr>Traces := 0\<rparr> else c)
     \<and> (pc s \<noteq> L55 \<longrightarrow>
          (pc s = Returned (Some InvalidConfiguration)) = (Duration c \<le> 0 \<and> Traces c \<le> 0))
     \<and> (\<forall>e. pc s = Returned (Some e) \<longrightarrow> e = InvalidConfiguration)"

fun inv_pc :: "Config \<Rightarrow> ('t, 'l) Run_state \<Rightarrow> label \<Rightarrow> bool" where
  "inv_pc c s L55 \<longleftrightarrow> threads s = [] \<and> history s = []"
| "inv_pc c s L61 \<longleftrightarrow> threads s = [] \<and> history s = []"
| "inv_pc c s L63 \<longleftrightarrow>
     i_local s = int (length (threads s)) \<and> length (threads s) \<le> nat (Workers c)
     \<and> running_local s = 1"
| "inv_pc c s L81 \<longleftrightarrow> length (threads s) = nat (Workers c) \<and> running_local s = 1"
| "inv_pc c s L83 \<longleftrightarrow>
     length (threads s) = nat (Workers c) \<and> running_local s = 1 \<and> Duration c > 0"
| "inv_pc c s L85 \<longleftrightarrow>
     length (threads s) = nat (Workers c)
     \<and> running_local s = (if Duration c > 0 then 0 else 1)"
| "inv_pc c s (Returned None) \<longleftrightarrow>
     length (threads s) = nat (Workers c)
     \<and> running_local s = (if Duration c > 0 then 0 else 1)"
| "inv_pc c s (Returned (Some e)) \<longleftrightarrow> threads s = [] \<and> history s = [Return (Some e)]"

definition inv_coord :: "Config \<Rightarrow> ('t, 'l) Run_state \<Rightarrow> bool" where
  "inv_coord c s \<longleftrightarrow>
     inv_pc c s (pc s)
     \<and> coordinator_events (history s) = coordinator_trace c (pc s) (length (threads s))"

definition inv_threads :: "Config \<Rightarrow> 't \<Rightarrow> 'l Logger \<Rightarrow> ('t, 'l) Run_state \<Rightarrow> bool" where
  "inv_threads c tr lg s \<longleftrightarrow>
     (\<forall>k < length (threads s).
        self (threads s ! k) = worker_of c tr lg (int k) \<and> 0 \<le> iterationCounter (threads s ! k))"

definition active :: "('t, 'l) thread list \<Rightarrow> int" where
  "active ts = sum_list (map (\<lambda>t. if phase t = Terminated then 0 else 1) ts)"

definition inv_wg :: "('t, 'l) Run_state \<Rightarrow> bool" where
  "inv_wg s \<longleftrightarrow> wg_local s = active (threads s)"

definition total_iterations :: "('t, 'l) thread list \<Rightarrow> int" where
  "total_iterations ts = sum_list (map iterationCounter ts)"

definition inv_emit :: "Config \<Rightarrow> ('t, 'l) Run_state \<Rightarrow> bool" where
  "inv_emit c s \<longleftrightarrow>
     emitted (history s)
       = replicate (nat (total_iterations (threads s))) (synthetic_trace (Debug c) (Firehose c))"

definition inv_join :: "('t, 'l) Run_state \<Rightarrow> bool" where
  "inv_join s \<longleftrightarrow>
     (pc s = Returned None \<longrightarrow> (\<forall>k < length (threads s). phase (threads s ! k) = Terminated))"

definition inv_quiet :: "('t, 'l) Run_state \<Rightarrow> bool" where
  "inv_quiet s \<longleftrightarrow> (threads s = [] \<longrightarrow> coordinator_events (history s) = history s)"

definition Run_inv :: "Config \<Rightarrow> 't \<Rightarrow> 'l Logger \<Rightarrow> ('t, 'l) Run_state \<Rightarrow> bool" where
  "Run_inv c tr lg s \<longleftrightarrow>
     inv_frame c tr lg s \<and> inv_coord c s \<and> inv_threads c tr lg s \<and> inv_wg s
     \<and> inv_emit c s \<and> inv_join s \<and> inv_quiet s"

text \<open>
  Count mode: a worker never exceeds its planned count and has reached it when it
  terminates; the potential is the number of steps the run has left.
\<close>

definition thread_ok :: "int \<Rightarrow> ('t, 'l) thread \<Rightarrow> bool" where
  "thread_ok n t \<longleftrightarrow>
     iterationCounter t \<le> n
     \<and> (phase t = InFlight \<longrightarrow> iterationCounter t < n)
     \<and> (phase t = Terminated \<longrightarrow> iterationCounter t = n)"

definition inv_count :: "int \<Rightarrow> ('t, 'l) Run_state \<Rightarrow> bool" where
  "inv_count n s \<longleftrightarrow> (\<forall>k < length (threads s). thread_ok n (threads s ! k))"

fun pc_potential :: "label \<Rightarrow> int" where
  "pc_potential L55 = 5"
| "pc_potential L61 = 4"
| "pc_potential L63 = 3"
| "pc_potential L81 = 2"
| "pc_potential L83 = 2"
| "pc_potential L85 = 1"
| "pc_potential (Returned r) = 0"

definition thread_potential :: "int \<Rightarrow> ('t, 'l) thread \<Rightarrow> int" where
  "thread_potential n t =
     (case phase t of
        Check \<Rightarrow> 3 * (n - iterationCounter t) + 1
      | InFlight \<Rightarrow> 3 * (n - iterationCounter t)
      | Pausing \<Rightarrow> 3 * (n - iterationCounter t) + 2
      | Terminated \<Rightarrow> 0)"

definition potential :: "Config \<Rightarrow> ('t, 'l) Run_state \<Rightarrow> int" where
  "potential c s =
     pc_potential (pc s)
     + (int (nat (Workers c)) - int (length (threads s))) * (3 * Traces c + 2)
     + sum_list (map (thread_potential (Traces c)) (threads s))"

section \<open>Proof infrastructure\<close>

subsection \<open>Case analysis of a step\<close>

lemma Run_step_cases [consumes 1, case_names normalise invalid valid init spawn spawned sleep nosleep store join]:
  assumes "Run_step s = Some s'"
  obtains
    "pc s = L55" "Duration (conf s) > 0" "s' = s\<lparr>conf := (conf s)\<lparr>Traces := 0\<rparr>, pc := L61\<rparr>"
  | "pc s = L55" "Duration (conf s) \<le> 0" "Traces (conf s) \<le> 0"
      "s' = s\<lparr>pc := Returned (Some InvalidConfiguration),
               history := history s @ [Return (Some InvalidConfiguration)]\<rparr>"
  | "pc s = L55" "Duration (conf s) \<le> 0" "Traces (conf s) > 0" "s' = s\<lparr>pc := L61\<rparr>"
  | "pc s = L61"
      "s' = s\<lparr>wg_local := 0, running_local := 1, i_local := 0, pc := L63,
               history := history s @ [Init_running 1]\<rparr>"
  | "pc s = L63" "i_local s < Workers (conf s)"
      "s' = s\<lparr>wg_local := wg_local s + 1,
               threads := threads s @ [\<lparr>self = new_worker s, iterationCounter = 0, phase = Check\<rparr>],
               i_local := i_local s + 1,
               history := history s @ [Wg_add 1, Go (i_local s)]\<rparr>"
  | "pc s = L63" "\<not> i_local s < Workers (conf s)" "s' = s\<lparr>pc := L81\<rparr>"
  | "pc s = L81" "Duration (conf s) > 0"
      "s' = s\<lparr>pc := L83, history := history s @ [Sleep (Duration (conf s))]\<rparr>"
  | "pc s = L81" "Duration (conf s) \<le> 0" "s' = s\<lparr>pc := L85\<rparr>"
  | "pc s = L83"
      "s' = s\<lparr>running_local := 0, pc := L85, history := history s @ [Store_running 0]\<rparr>"
  | "pc s = L85" "wg_local s = 0"
      "s' = s\<lparr>pc := Returned None, history := history s @ [Wg_wait, Return None]\<rparr>"
proof (cases "pc s")
  case L55
  show ?thesis
  proof (cases "Duration (conf s) > 0")
    case True
    with L55 assms have "s' = s\<lparr>conf := (conf s)\<lparr>Traces := 0\<rparr>, pc := L61\<rparr>"
      by (simp add: Run_step_def)
    with L55 True show ?thesis by (rule that(1))
  next
    case False
    show ?thesis
    proof (cases "Traces (conf s) \<le> 0")
      case True
      with L55 False assms have "s' = s\<lparr>pc := Returned (Some InvalidConfiguration),
               history := history s @ [Return (Some InvalidConfiguration)]\<rparr>"
        by (simp add: Run_step_def)
      with L55 False True show ?thesis using that(2) by simp
    next
      case nt: False
      with L55 False assms have "s' = s\<lparr>pc := L61\<rparr>"
        by (simp add: Run_step_def)
      with L55 False nt show ?thesis using that(3) by simp
    qed
  qed
next
  case L61
  with assms have "s' = s\<lparr>wg_local := 0, running_local := 1, i_local := 0, pc := L63,
               history := history s @ [Init_running 1]\<rparr>"
    by (simp add: Run_step_def)
  with L61 show ?thesis by (rule that(4))
next
  case L63
  show ?thesis
  proof (cases "i_local s < Workers (conf s)")
    case True
    with L63 assms have "s' = s\<lparr>wg_local := wg_local s + 1,
               threads := threads s @ [\<lparr>self = new_worker s, iterationCounter = 0, phase = Check\<rparr>],
               i_local := i_local s + 1,
               history := history s @ [Wg_add 1, Go (i_local s)]\<rparr>"
      by (simp add: Run_step_def)
    with L63 True show ?thesis by (rule that(5))
  next
    case False
    with L63 assms have "s' = s\<lparr>pc := L81\<rparr>"
      by (simp add: Run_step_def)
    with L63 False show ?thesis by (rule that(6))
  qed
next
  case L81
  show ?thesis
  proof (cases "Duration (conf s) > 0")
    case True
    with L81 assms have "s' = s\<lparr>pc := L83, history := history s @ [Sleep (Duration (conf s))]\<rparr>"
      by (simp add: Run_step_def)
    with L81 True show ?thesis by (rule that(7))
  next
    case False
    with L81 assms have "s' = s\<lparr>pc := L85\<rparr>"
      by (simp add: Run_step_def)
    with L81 False show ?thesis using that(8) by simp
  qed
next
  case L83
  with assms have "s' = s\<lparr>running_local := 0, pc := L85, history := history s @ [Store_running 0]\<rparr>"
    by (simp add: Run_step_def)
  with L83 show ?thesis by (rule that(9))
next
  case L85
  with assms have "wg_local s = 0"
    and "s' = s\<lparr>pc := Returned None, history := history s @ [Wg_wait, Return None]\<rparr>"
    by (simp_all add: Run_step_def split: if_splits)
  with L85 show ?thesis by (rule that(10))
next
  case (Returned r)
  with assms show ?thesis by (simp add: Run_step_def)
qed

lemma simulateTraces_step_cases [consumes 1, case_names enter leave emit pause]:
  assumes "simulateTraces_step flag t = Some (t', es)"
  obtains
    "phase t = Check" "loop_condition (traces (self t)) (iterationCounter t) flag"
      "t' = t\<lparr>phase := InFlight\<rparr>" "es = []"
  | "phase t = Check" "\<not> loop_condition (traces (self t)) (iterationCounter t) flag"
      "t' = t\<lparr>phase := Terminated\<rparr>" "es = [Wg_done (id_w (self t))]"
  | "phase t = InFlight" "t' = t\<lparr>iterationCounter := iterationCounter t + 1, phase := Pausing\<rparr>"
      "es = [Emit (id_w (self t)) (synthetic_trace (debug (self t)) (firehose (self t)))]"
  | "phase t = Pausing" "t' = t\<lparr>phase := Check\<rparr>" "es = []"
proof (cases "phase t")
  case Check
  show ?thesis
  proof (cases "loop_condition (traces (self t)) (iterationCounter t) flag")
    case True
    with Check assms have "t' = t\<lparr>phase := InFlight\<rparr>" "es = []"
      by (simp_all add: simulateTraces_step_def)
    with Check True show ?thesis by (rule that(1))
  next
    case False
    with Check assms have "t' = t\<lparr>phase := Terminated\<rparr>" "es = [Wg_done (id_w (self t))]"
      by (simp_all add: simulateTraces_step_def)
    with Check False show ?thesis by (rule that(2))
  qed
next
  case InFlight
  with assms have "t' = t\<lparr>iterationCounter := iterationCounter t + 1, phase := Pausing\<rparr>"
    "es = [Emit (id_w (self t)) (synthetic_trace (debug (self t)) (firehose (self t)))]"
    by (simp_all add: simulateTraces_step_def)
  with InFlight show ?thesis by (rule that(3))
next
  case Pausing
  with assms have "t' = t\<lparr>phase := Check\<rparr>" "es = []"
    by (simp_all add: simulateTraces_step_def)
  with Pausing show ?thesis by (rule that(4))
next
  case Terminated
  with assms show ?thesis by (simp add: simulateTraces_step_def)
qed

lemma step_cases [consumes 1, case_names coordinator worker]:
  assumes "step a s = Some s'"
  obtains "a = Coordinator" "Run_step s = Some s'"
  | k t' es where "a = Worker k" "k < length (threads s)"
      "simulateTraces_step (running_local s) (threads s ! k) = Some (t', es)"
      "s' = s\<lparr>threads := (threads s)[k := t'], wg_local := wg_local s - wg_done es,
               history := history s @ es\<rparr>"
      "running (self (threads s ! k)) = Addr_running" "wg (self (threads s ! k)) = Addr_wg"
proof (cases a)
  case Coordinator
  with assms show ?thesis using that(1) by (simp add: step_def)
next
  case (Worker k)
  with assms have k: "k < length (threads s)"
    and p: "running (self (threads s ! k)) = Addr_running" "wg (self (threads s ! k)) = Addr_wg"
    by (simp_all add: step_def split: if_splits)
  with assms Worker obtain t' es
    where st: "simulateTraces_step (running_local s) (threads s ! k) = Some (t', es)"
    by (cases "simulateTraces_step (running_local s) (threads s ! k)") (auto simp: step_def)
  with assms Worker k p
  have "s' = s\<lparr>threads := (threads s)[k := t'], wg_local := wg_local s - wg_done es,
               history := history s @ es\<rparr>"
    by (simp add: step_def)
  with Worker k st show ?thesis using p by (rule that(2))
qed

lemma exec_invariant:
  assumes pres: "\<And>a s s'. P s \<Longrightarrow> step a s = Some s' \<Longrightarrow> P s'"
    and init: "P s" and run: "exec sched s = Some s'"
  shows "P s'"
  using init run
proof (induction sched arbitrary: s)
  case Nil
  then show ?case by simp
next
  case (Cons a as)
  from Cons.prems(2) obtain u where u: "step a s = Some u" and rest: "exec as u = Some s'"
    by (auto split: option.splits)
  from pres [OF Cons.prems(1) u] rest show ?case by (rule Cons.IH)
qed

lemmas eval_defs = Run_init_def step_def Run_step_def simulateTraces_step_def loop_condition_def
  new_worker_def InvalidConfiguration_def synthetic_trace_def

subsection \<open>Histories\<close>

lemma coordinator_events_append [simp]:
  "coordinator_events (xs @ ys) = coordinator_events xs @ coordinator_events ys"
  by (simp add: coordinator_events_def)

lemma coordinator_events_simps [simp]:
  "coordinator_events [] = []"
  "coordinator_events (e # es) = (if by_worker e then coordinator_events es else e # coordinator_events es)"
  by (simp_all add: coordinator_events_def)

lemma emitted_append [simp]: "emitted (xs @ ys) = emitted xs @ emitted ys"
  by (induction xs rule: emitted.induct) simp_all

lemma spawn_events_Suc: "spawn_events (Suc n) = spawn_events n @ [Wg_add 1, Go (int n)]"
  by (simp add: spawn_events_def)

lemma spawn_events_0 [simp]: "spawn_events 0 = []"
  by (simp add: spawn_events_def)



lemma stores_append [simp]: "stores (xs @ ys) = stores xs @ stores ys"
  by (induction xs rule: stores.induct) simp_all


lemma stores_spawn_events [simp]: "stores (spawn_events n) = []"
  by (induction n) (simp_all add: spawn_events_Suc)

lemma worker_events_coordinator:
  assumes "simulateTraces_step flag t = Some (t', es)"
  shows "coordinator_events es = []"
  using assms by (cases rule: simulateTraces_step_cases) simp_all

subsection \<open>Sums over the workers\<close>

lemma sum_list_map_update:
  fixes f :: "'a \<Rightarrow> int"
  shows "k < length xs \<Longrightarrow>
    sum_list (map f (xs[k := y])) = sum_list (map f xs) - f (xs ! k) + f y"
proof (induction xs arbitrary: k)
  case Nil
  then show ?case by simp
next
  case (Cons x xs)
  then show ?case by (cases k) simp_all
qed

lemma sum_list_const:
  fixes f :: "'a \<Rightarrow> int"
  assumes "\<forall>k < length xs. f (xs ! k) = n"
  shows "sum_list (map f xs) = int (length xs) * n"
proof -
  from assms have "map f xs = replicate (length xs) n"
    by (intro nth_equalityI) simp_all
  then show ?thesis by (simp add: sum_list_replicate)
qed

lemma active_nonneg: "0 \<le> active ts"
  unfolding active_def by (induction ts) simp_all

lemma active_Cons: "active (t # ts) = (if phase t = Terminated then 0 else 1) + active ts"
  by (simp add: active_def)

lemma active_zero:
  "active ts = 0 \<longleftrightarrow> (\<forall>k < length ts. phase (ts ! k) = Terminated)"
proof (induction ts)
  case Nil
  show ?case by (simp add: active_def)
next
  case (Cons t ts)
  have "active (t # ts) = 0 \<longleftrightarrow> phase t = Terminated \<and> active ts = 0"
    using active_nonneg [of ts] by (simp add: active_Cons)
  with Cons.IH show ?case
    by (auto simp: nth_Cons split: nat.splits)
qed

lemma active_filter: "active ts = int (length (filter (\<lambda>t. phase t \<noteq> Terminated) ts))"
  by (induction ts) (simp_all add: active_def)

lemma all_terminated_iff:
  "(\<forall>k < length ts. phase (ts ! k) = Terminated) \<longleftrightarrow> (\<forall>t \<in> set ts. phase t = Terminated)"
  by (simp add: all_set_conv_all_nth)

lemma terminated_no_step: "phase t = Terminated \<Longrightarrow> simulateTraces_step flag t = None"
  by (simp add: simulateTraces_step_def)

subsection \<open>Preservation of the invariants\<close>

lemma inv_frame_init: "inv_frame c tr lg (Run_init c tr lg)"
  by (simp add: inv_frame_def Run_init_def)

lemma inv_frame_step:
  assumes "inv_frame c tr lg s" and "step a s = Some s'"
  shows "inv_frame c tr lg s'"
  using assms(2)
proof (cases rule: step_cases)
  case coordinator
  from coordinator(2) show ?thesis
    using assms(1) by (cases rule: Run_step_cases) (auto simp: inv_frame_def split: if_splits)
next
  case (worker k t' es)
  with assms(1) show ?thesis by (simp add: inv_frame_def)
qed

lemma inv_coord_init: "inv_coord c (Run_init c tr lg)"
  by (simp add: inv_coord_def Run_init_def)

lemma inv_coord_step:
  assumes "inv_frame c tr lg s" and "inv_coord c s" and "step a s = Some s'"
  shows "inv_coord c s'"
  using assms(3)
proof (cases rule: step_cases)
  case coordinator
  from coordinator(2) show ?thesis
    using assms(1,2)
    by (cases rule: Run_step_cases)
      (auto simp: inv_frame_def inv_coord_def spawn_events_Suc timer_events_def split: if_splits)
next
  case (worker k t' es)
  note ev = worker_events_coordinator [OF worker(3)]
  show ?thesis
  proof (cases "pc s")
    case (Returned r)
    with assms(2) worker(2) ev show ?thesis
      by (cases r) (simp_all add: inv_coord_def worker(4))
  qed (use assms(2) worker(2) ev in \<open>simp_all add: inv_coord_def worker(4)\<close>)
qed

lemma new_worker_eq:
  assumes "inv_frame c tr lg s" and "pc s = L63"
  shows "new_worker s = worker_of c tr lg (i_local s)"
  using assms by (simp add: inv_frame_def new_worker_def worker_of_def normalised_def)

lemma inv_threads_init: "inv_threads c tr lg (Run_init c tr lg)"
  by (simp add: inv_threads_def Run_init_def)

lemma inv_threads_step:
  assumes "inv_frame c tr lg s" and "inv_coord c s" and "inv_threads c tr lg s"
    and "step a s = Some s'"
  shows "inv_threads c tr lg s'"
  using assms(4)
proof (cases rule: step_cases)
  case coordinator
  from coordinator(2) show ?thesis
  proof (cases rule: Run_step_cases)
    case spawn
    from assms(2) spawn(1) have i: "i_local s = int (length (threads s))"
      by (simp add: inv_coord_def)
    from assms(3) i show ?thesis
      by (auto simp: inv_threads_def spawn(3) nth_append new_worker_eq [OF assms(1) spawn(1)]
          less_Suc_eq)
  qed (use assms(3) in \<open>simp_all add: inv_threads_def\<close>)
next
  case (worker k t' es)
  from worker(3) have "self t' = self (threads s ! k)
      \<and> iterationCounter (threads s ! k) \<le> iterationCounter t'"
    by (cases rule: simulateTraces_step_cases) simp_all
  with assms(3) worker(2) show ?thesis
    by (auto simp: inv_threads_def worker(4) nth_list_update)
qed

lemma inv_wg_init: "inv_wg (Run_init c tr lg)"
  by (simp add: inv_wg_def active_def Run_init_def)

lemma inv_wg_step:
  assumes "inv_coord c s" and "inv_wg s" and "step a s = Some s'"
  shows "inv_wg s'"
  using assms(3)
proof (cases rule: step_cases)
  case coordinator
  from coordinator(2) show ?thesis
    using assms(1,2)
    by (cases rule: Run_step_cases) (simp_all add: inv_wg_def active_def inv_coord_def)
next
  case (worker k t' es)
  from worker(3)
  have "(if phase t' = Terminated then 0 else 1)
      = (if phase (threads s ! k) = Terminated then 0 else (1::int)) - wg_done es"
    by (cases rule: simulateTraces_step_cases) simp_all
  with assms(2) worker(2) show ?thesis
    by (simp add: inv_wg_def active_def worker(4) sum_list_map_update)
qed

lemma inv_emit_init: "inv_emit c (Run_init c tr lg)"
  by (simp add: inv_emit_def total_iterations_def Run_init_def)

lemma inv_emit_step:
  assumes "inv_threads c tr lg s" and "inv_emit c s" and "step a s = Some s'"
  shows "inv_emit c s'"
  using assms(3)
proof (cases rule: step_cases)
  case coordinator
  from coordinator(2) show ?thesis
    using assms(2)
    by (cases rule: Run_step_cases) (simp_all add: inv_emit_def total_iterations_def)
next
  case (worker k t' es)
  from assms(1) worker(2)
  have self: "self (threads s ! k) = worker_of c tr lg (int k)"
    by (simp add: inv_threads_def)
  have nonneg: "0 \<le> total_iterations (threads s)"
    unfolding total_iterations_def using assms(1)
    by (intro sum_list_nonneg) (auto simp: inv_threads_def in_set_conv_nth)
  from worker(3) show ?thesis
  proof (cases rule: simulateTraces_step_cases)
    case emit
    from nonneg have "nat (total_iterations (threads s) + 1) = Suc (nat (total_iterations (threads s)))"
      by simp
    with assms(2) worker(2) show ?thesis
      by (simp add: inv_emit_def total_iterations_def worker(4) emit sum_list_map_update self
          worker_of_def replicate_append_same)
  qed (use assms(2) worker(2) in
      \<open>simp_all add: inv_emit_def total_iterations_def worker(4) sum_list_map_update\<close>)
qed

lemma inv_join_init: "inv_join (Run_init c tr lg)"
  by (simp add: inv_join_def Run_init_def)

lemma inv_join_step:
  assumes "inv_wg s" and "inv_join s" and "step a s = Some s'"
  shows "inv_join s'"
  using assms(3)
proof (cases rule: step_cases)
  case coordinator
  from coordinator(2) show ?thesis
  proof (cases rule: Run_step_cases)
    case join
    from assms(1) join(2) have "active (threads s) = 0"
      by (simp add: inv_wg_def)
    then show ?thesis
      by (simp add: inv_join_def join(3) active_zero)
  qed (simp_all add: inv_join_def)
next
  case (worker k t' es)
  show ?thesis
  proof (cases "pc s = Returned None")
    case True
    with assms(2) worker(2) have "phase (threads s ! k) = Terminated"
      by (simp add: inv_join_def)
    with worker(3) show ?thesis by (simp add: terminated_no_step)
  next
    case False
    then show ?thesis by (simp add: inv_join_def worker(4))
  qed
qed

lemma inv_quiet_init: "inv_quiet (Run_init c tr lg)"
  by (simp add: inv_quiet_def Run_init_def)

lemma inv_quiet_step:
  assumes "inv_quiet s" and "step a s = Some s'"
  shows "inv_quiet s'"
  using assms(2)
proof (cases rule: step_cases)
  case coordinator
  from coordinator(2) show ?thesis
    using assms(1) by (cases rule: Run_step_cases) (simp_all add: inv_quiet_def)
next
  case (worker k t' es)
  then show ?thesis by (auto simp: inv_quiet_def)
qed

lemma Run_inv_init: "Run_inv c tr lg (Run_init c tr lg)"
  unfolding Run_inv_def
  by (intro conjI inv_frame_init inv_coord_init inv_threads_init inv_wg_init inv_emit_init
      inv_join_init inv_quiet_init)

lemma Run_inv_step:
  assumes "Run_inv c tr lg s" and "step a s = Some s'"
  shows "Run_inv c tr lg s'"
proof -
  from assms(1) have f: "inv_frame c tr lg s" and co: "inv_coord c s"
    and t: "inv_threads c tr lg s" and w: "inv_wg s" and e: "inv_emit c s" and j: "inv_join s"
    and q: "inv_quiet s"
    by (simp_all add: Run_inv_def)
  note st = assms(2)
  show ?thesis
    unfolding Run_inv_def
    by (intro conjI inv_frame_step [OF f st] inv_coord_step [OF f co st]
        inv_threads_step [OF f co t st] inv_wg_step [OF co w st] inv_emit_step [OF t e st]
        inv_join_step [OF w j st] inv_quiet_step [OF q st])
qed

lemma Run_inv_exec:
  assumes "exec sched (Run_init c tr lg) = Some s"
  shows "Run_inv c tr lg s"
  using Run_inv_step Run_inv_init assms by (rule exec_invariant)

subsection \<open>Consequences of the invariants\<close>


lemma length_at_most:
  assumes "inv_coord c s"
  shows "length (threads s) \<le> nat (Workers c)"
proof (cases "pc s")
  case (Returned r)
  with assms show ?thesis by (cases r) (simp_all add: inv_coord_def)
qed (use assms in \<open>simp_all add: inv_coord_def\<close>)



lemma error_state_final:
  assumes "pc s = Returned r" and "threads s = []"
  shows "step a s = None"
  using assms by (cases a) (simp_all add: step_def Run_step_def)

lemma exec_from_final:
  assumes "pc s = Returned r" and "threads s = []" and "exec sched s = Some s'"
  shows "sched = []"
proof (cases sched)
  case Nil
  then show ?thesis .
next
  case (Cons a as)
  with assms(3) error_state_final [OF assms(1,2), of a] show ?thesis by simp
qed

lemma invalid_first_step:
  assumes "Duration c \<le> 0" and "Traces c \<le> 0"
  shows "step a (Run_init c tr lg) =
    (if a = Coordinator
     then Some ((Run_init c tr lg)\<lparr>pc := Returned (Some InvalidConfiguration),
                  history := [Return (Some InvalidConfiguration)]\<rparr>)
     else None)"
  using assms by (cases a) (simp_all add: step_def Run_step_def Run_init_def)

subsection \<open>Progress\<close>

lemma Run_step_enabled:
  "pc s \<noteq> L85 \<or> wg_local s = 0 \<Longrightarrow> \<forall>r. pc s \<noteq> Returned r \<Longrightarrow> Run_step s \<noteq> None"
  by (cases "pc s") (auto simp: Run_step_def)

lemma worker_enabled:
  assumes "inv_threads c tr lg s" and "k < length (threads s)"
    and "phase (threads s ! k) \<noteq> Terminated"
  shows "step (Worker k) s \<noteq> None"
proof -
  from assms(1,2) have "running (self (threads s ! k)) = Addr_running"
    and "wg (self (threads s ! k)) = Addr_wg"
    by (simp_all add: inv_threads_def worker_of_def)
  with assms(2,3) show ?thesis
    by (cases "phase (threads s ! k)") (auto simp: step_def simulateTraces_step_def)
qed

lemma progress:
  assumes "inv_threads c tr lg s" and "inv_wg s" and "\<forall>r. pc s \<noteq> Returned r"
  shows "\<exists>a. step a s \<noteq> None"
proof (cases "pc s \<noteq> L85 \<or> wg_local s = 0")
  case True
  with assms(3) have "step Coordinator s \<noteq> None"
    by (simp add: step_def Run_step_enabled)
  then show ?thesis ..
next
  case False
  with assms(2) have "active (threads s) \<noteq> 0"
    by (simp add: inv_wg_def)
  then obtain k where "k < length (threads s)" "phase (threads s ! k) \<noteq> Terminated"
    by (auto simp: active_zero)
  with assms(1) have "step (Worker k) s \<noteq> None" by (rule worker_enabled)
  then show ?thesis ..
qed

subsection \<open>The spawn loop\<close>








subsection \<open>Count mode\<close>

lemma inv_count_init: "inv_count n (Run_init c tr lg)"
  by (simp add: inv_count_def Run_init_def)

lemma potential_init: "potential c (Run_init c tr lg) = 5 + int (nat (Workers c)) * (3 * Traces c + 2)"
  by (simp add: potential_def Run_init_def)

lemma count_loop_condition:
  "0 < n \<Longrightarrow> loop_condition n k flag \<longleftrightarrow> k < n"
  by (auto simp: loop_condition_def)

lemma worker_count_step:
  assumes "0 < n" and "traces (self t) = n" and "thread_ok n t"
    and "simulateTraces_step flag t = Some (t', es)"
  shows "thread_ok n t' \<and> thread_potential n t' = thread_potential n t - 1"
  using assms(4)
  by (cases rule: simulateTraces_step_cases)
     (use assms(1-3) in \<open>auto simp: thread_ok_def thread_potential_def count_loop_condition\<close>)

lemma count_step:
  assumes mode: "Duration c \<le> 0" "0 < Traces c"
    and inv: "Run_inv c tr lg s" and cnt: "inv_count (Traces c) s" and st: "step a s = Some s'"
  shows "inv_count (Traces c) s' \<and> potential c s' = potential c s - 1"
  using st
proof (cases rule: step_cases)
  case coordinator
  from inv have co: "inv_coord c s" by (simp add: Run_inv_def)
  from coordinator(2) show ?thesis
  proof (cases rule: Run_step_cases)
    case spawn
    from cnt mode show ?thesis
      by (auto simp: inv_count_def potential_def spawn nth_append thread_ok_def
          thread_potential_def less_Suc_eq algebra_simps)
  next
    case invalid
    with inv mode show ?thesis by (simp add: Run_inv_def inv_frame_def split: if_splits)
  next
    case sleep
    with inv mode show ?thesis by (simp add: Run_inv_def inv_frame_def split: if_splits)
  next
    case store
    with co mode show ?thesis by (simp add: inv_coord_def)
  qed (use cnt in \<open>simp_all add: inv_count_def potential_def\<close>)
next
  case (worker k t' es)
  from inv worker(2) mode have "traces (self (threads s ! k)) = Traces c"
    by (simp add: Run_inv_def inv_threads_def worker_of_def normalised_def)
  moreover from cnt worker(2) have "thread_ok (Traces c) (threads s ! k)"
    by (simp add: inv_count_def)
  ultimately have "thread_ok (Traces c) t'
      \<and> thread_potential (Traces c) t' = thread_potential (Traces c) (threads s ! k) - 1"
    using worker(3) mode(2) by (intro worker_count_step)
  with cnt worker(2) show ?thesis
    by (auto simp: inv_count_def potential_def worker(4) nth_list_update sum_list_map_update)
qed

lemma count_exec:
  assumes mode: "Duration c \<le> 0" "0 < Traces c"
  shows "Run_inv c tr lg s \<Longrightarrow> inv_count (Traces c) s \<Longrightarrow> exec sched s = Some s' \<Longrightarrow>
    inv_count (Traces c) s' \<and> potential c s' = potential c s - int (length sched)"
proof (induction sched arbitrary: s)
  case Nil
  then show ?case by simp
next
  case (Cons a as)
  from Cons.prems(3) obtain u where u: "step a s = Some u" and rest: "exec as u = Some s'"
    by (auto split: option.splits)
  from count_step [OF mode Cons.prems(1,2) u]
  have cu: "inv_count (Traces c) u" and pu: "potential c u = potential c s - 1" by simp_all
  from Cons.IH [OF Run_inv_step [OF Cons.prems(1) u] cu rest] pu
  show ?case by simp
qed

lemma count_inv_exec:
  assumes "Duration c \<le> 0" and "0 < Traces c" and "exec sched (Run_init c tr lg) = Some s"
  shows "inv_count (Traces c) s"
    and "potential c s = 5 + int (nat (Workers c)) * (3 * Traces c + 2) - int (length sched)"
  using count_exec [OF assms(1,2) Run_inv_init inv_count_init assms(3)]
  by (simp_all add: potential_init)

lemma thread_potential_nonneg: "thread_ok n t \<Longrightarrow> 0 \<le> thread_potential n t"
  by (cases "phase t") (auto simp: thread_ok_def thread_potential_def)

lemma potential_nonneg:
  assumes "inv_coord c s" and "inv_count (Traces c) s" and "0 < Traces c"
    and "\<forall>e. pc s \<noteq> Returned (Some e)"
  shows "0 \<le> potential c s"
proof -
  have "0 \<le> sum_list (map (thread_potential (Traces c)) (threads s))"
    using assms(2)
    by (intro sum_list_nonneg) (auto simp: inv_count_def in_set_conv_nth thread_potential_nonneg)
  moreover have "0 \<le> pc_potential (pc s)"
    by (cases "pc s") simp_all
  moreover have "length (threads s) \<le> nat (Workers c)"
    using assms(1,4) by (cases "pc s") (auto simp: inv_coord_def)
  then have "0 \<le> int (nat (Workers c)) - int (length (threads s))"
    by linarith
  then have "0 \<le> (int (nat (Workers c)) - int (length (threads s))) * (3 * Traces c + 2)"
    using assms(3) by (intro mult_nonneg_nonneg) simp_all
  ultimately show ?thesis by (simp add: potential_def)
qed

text \<open>From every state of a count-mode run some execution reaches the return.\<close>

lemma count_completes:
  assumes mode: "Duration c \<le> 0" "0 < Traces c"
  shows "Run_inv c tr lg s \<Longrightarrow> inv_count (Traces c) s \<Longrightarrow>
    \<exists>sched' s'. exec sched' s = Some s' \<and> pc s' = Returned None"
proof (induction "nat (potential c s)" arbitrary: s rule: less_induct)
  case less
  from less.prems(1) have fr: "inv_frame c tr lg s" and th: "inv_threads c tr lg s"
    and wg: "inv_wg s"
    by (simp_all add: Run_inv_def)
  from fr mode(2) have ne: "\<forall>e. pc s \<noteq> Returned (Some e)"
    by (auto simp: inv_frame_def)
  show ?case
  proof (cases "pc s = Returned None")
    case True
    then have "exec [] s = Some s \<and> pc s = Returned None" by simp
    then show ?thesis by blast
  next
    case False
    with ne have "\<forall>r. pc s \<noteq> Returned r"
      by (metis option.exhaust)
    from progress [OF th wg this] obtain a u where u: "step a s = Some u"
      by auto
    note inv' = Run_inv_step [OF less.prems(1) u]
    from count_step [OF mode less.prems(1,2) u]
    have cnt': "inv_count (Traces c) u" and pot: "potential c u = potential c s - 1"
      by simp_all
    from inv' have fr': "inv_frame c tr lg u" and co': "inv_coord c u"
      by (simp_all add: Run_inv_def)
    from fr' mode(2) have ne': "\<forall>e. pc u \<noteq> Returned (Some e)"
      by (auto simp: inv_frame_def)
    from potential_nonneg [OF co' cnt' mode(2) ne'] pot
    have "nat (potential c u) < nat (potential c s)" by linarith
    from less.hyps [OF this inv' cnt'] obtain sched' s'
      where "exec sched' u = Some s'" and "pc s' = Returned None"
      by blast
    with u have "exec (a # sched') s = Some s' \<and> pc s' = Returned None" by simp
    then show ?thesis by blast
  qed
qed

subsection \<open>A worker on its own\<close>

lemma simulateTraces_terminated:
  "phase t = Terminated \<Longrightarrow> simulateTraces flags t = (t, [])"
  by (cases flags) (simp_all add: terminated_no_step)

lemma simulateTraces_count:
  assumes "0 < traces (self t)" and "phase t = Check"
    and "iterationCounter t = traces (self t) - int m" and "3 * m + 1 \<le> length flags"
  shows "simulateTraces flags t
    = (t\<lparr>iterationCounter := traces (self t), phase := Terminated\<rparr>,
       replicate m (Emit (id_w (self t)) (synthetic_trace (debug (self t)) (firehose (self t))))
         @ [Wg_done (id_w (self t))])"
  using assms
proof (induction m arbitrary: t flags)
  case 0
  then obtain f fs where flags: "flags = f # fs" by (cases flags) auto
  from 0 have "simulateTraces_step f t = Some (t\<lparr>phase := Terminated\<rparr>, [Wg_done (id_w (self t))])"
    by (simp add: simulateTraces_step_def loop_condition_def)
  moreover from 0 have "t\<lparr>phase := Terminated\<rparr> = t\<lparr>iterationCounter := traces (self t), phase := Terminated\<rparr>"
    by simp
  ultimately show ?case
    by (simp add: flags simulateTraces_terminated)
next
  case (Suc m)
  then obtain f1 f2 f3 fs where flags: "flags = f1 # f2 # f3 # fs" and len: "3 * m + 1 \<le> length fs"
    by (cases flags; cases "tl flags"; cases "tl (tl flags)") auto
  let ?t' = "t\<lparr>iterationCounter := iterationCounter t + 1, phase := Check\<rparr>"
  from Suc.prems have 1: "simulateTraces_step f1 t = Some (t\<lparr>phase := InFlight\<rparr>, [])"
    by (simp add: simulateTraces_step_def loop_condition_def)
  have 2: "simulateTraces_step f2 (t\<lparr>phase := InFlight\<rparr>)
      = Some (t\<lparr>iterationCounter := iterationCounter t + 1, phase := Pausing\<rparr>,
              [Emit (id_w (self t)) (synthetic_trace (debug (self t)) (firehose (self t)))])"
    by (simp add: simulateTraces_step_def)
  have 3: "simulateTraces_step f3 (t\<lparr>iterationCounter := iterationCounter t + 1, phase := Pausing\<rparr>)
      = Some (?t', [])"
    by (simp add: simulateTraces_step_def)
  from Suc.prems have "simulateTraces fs ?t'
    = (?t'\<lparr>iterationCounter := traces (self ?t'), phase := Terminated\<rparr>,
       replicate m (Emit (id_w (self ?t')) (synthetic_trace (debug (self ?t')) (firehose (self ?t'))))
         @ [Wg_done (id_w (self ?t'))])"
    by (intro Suc.IH len) simp_all
  with 1 2 3 show ?case by (simp add: flags)
qed

lemma simulateTraces_stop:
  assumes "traces (self t) = 0" and "0 \<le> iterationCounter t" and "phase t \<noteq> Terminated"
    and "\<forall>f \<in> set flags. f \<noteq> 1" and "3 \<le> length flags"
  shows "phase (fst (simulateTraces flags t)) = Terminated
    \<and> emitted (snd (simulateTraces flags t))
        = (if phase t = InFlight then [synthetic_trace (debug (self t)) (firehose (self t))] else [])"
proof -
  from assms(5) obtain f1 f2 f3 fs where flags: "flags = f1 # f2 # f3 # fs"
    by (cases flags; cases "tl flags"; cases "tl (tl flags)") auto
  with assms(4) have f: "f1 \<noteq> 1" "f2 \<noteq> 1" "f3 \<noteq> 1" by simp_all
  from assms(3) show ?thesis
  proof (cases "phase t")
    case Check
    with assms(1,2) f show ?thesis
      by (simp add: flags simulateTraces_step_def loop_condition_def simulateTraces_terminated)
  next
    case InFlight
    with assms(1,2) f show ?thesis
      by (simp add: flags simulateTraces_step_def loop_condition_def simulateTraces_terminated)
  next
    case Pausing
    with assms(1,2) f show ?thesis
      by (simp add: flags simulateTraces_step_def loop_condition_def simulateTraces_terminated)
  qed simp
qed

lemma simulateTraces_runs:
  assumes "traces (self t) = 0" and "phase t \<noteq> Terminated" and "\<forall>f \<in> set flags. f = 1"
  shows "phase (fst (simulateTraces flags t)) \<noteq> Terminated"
  using assms
proof (induction flags arbitrary: t)
  case Nil
  then show ?case by simp
next
  case (Cons f fs)
  from Cons.prems obtain t' es where st: "simulateTraces_step f t = Some (t', es)"
    and t': "traces (self t') = 0" "phase t' \<noteq> Terminated"
    by (cases "phase t") (auto simp: simulateTraces_step_def loop_condition_def)
  from Cons.prems(3) have "phase (fst (simulateTraces fs t')) \<noteq> Terminated"
    by (intro Cons.IH t') simp
  with st show ?case
    by (cases "simulateTraces fs t'") simp
qed

section \<open>Properties of the program\<close>

text \<open>
  Every property below is about an arbitrary execution: any schedule \<open>sched\<close> of the
  coordinator and the workers that the model can run from the initial state of
  \<open>Run(c, tracer, logger)\<close>, and the state \<open>s\<close> it leads to.
\<close>

subsection \<open>C1\<close>

text \<open>
  C1. \<open>Run\<close> returns an error if and only if \<open>c.Duration \<le> 0\<close> and \<open>c.Traces \<le> 0\<close>.
  Whenever an error has been returned, the configuration is invalid, the error was
  returned by the coordinator's first step, no worker exists, the configuration is
  unchanged and the return is the only thing that happened. For an invalid configuration
  the first step returns the error, no other execution exists, and success is never
  returned. With \<open>c.Duration > 0\<close> no error is ever returned, whatever \<open>c.Traces\<close> is.
\<close>

theorem Run_error_iff_invalid:
  assumes "exec sched (Run_init c tr lg) = Some s"
  shows "((\<exists>e. pc s = Returned (Some e)) \<longrightarrow>
            Duration c \<le> 0 \<and> Traces c \<le> 0 \<and> sched = [Coordinator] \<and> threads s = []
            \<and> conf s = c \<and> history s = [Return (Some InvalidConfiguration)])
    \<and> (Duration c \<le> 0 \<and> Traces c \<le> 0 \<longrightarrow>
          exec [Coordinator] (Run_init c tr lg)
            = Some ((Run_init c tr lg)\<lparr>pc := Returned (Some InvalidConfiguration),
                      history := [Return (Some InvalidConfiguration)]\<rparr>)
          \<and> (sched = [] \<or> sched = [Coordinator]) \<and> pc s \<noteq> Returned None)
    \<and> (0 < Duration c \<longrightarrow> (\<forall>e. pc s \<noteq> Returned (Some e)))"
proof -
  note inv = Run_inv_exec [OF assms]
  then have fr: "inv_frame c tr lg s" and co: "inv_coord c s" by (simp_all add: Run_inv_def)
  have invalid: "sched = [] \<or> (sched = [Coordinator]
      \<and> s = (Run_init c tr lg)\<lparr>pc := Returned (Some InvalidConfiguration),
                  history := [Return (Some InvalidConfiguration)]\<rparr>)"
    if bad: "Duration c \<le> 0" "Traces c \<le> 0"
  proof (cases sched)
    case Nil
    then show ?thesis by simp
  next
    case (Cons a as)
    let ?e = "(Run_init c tr lg)\<lparr>pc := Returned (Some InvalidConfiguration),
                  history := [Return (Some InvalidConfiguration)]\<rparr>"
    from assms Cons invalid_first_step [OF bad, of a tr lg]
    have a: "a = Coordinator" and rest: "exec as ?e = Some s"
      by (auto split: if_splits)
    have "as = []"
      by (rule exec_from_final [OF _ _ rest]) (simp_all add: Run_init_def)
    with a rest Cons show ?thesis by simp
  qed
  have err: "Duration c \<le> 0 \<and> Traces c \<le> 0" if "pc s = Returned (Some e)" for e
    using fr that by (auto simp: inv_frame_def)
  have 1: "(\<exists>e. pc s = Returned (Some e)) \<longrightarrow>
            Duration c \<le> 0 \<and> Traces c \<le> 0 \<and> sched = [Coordinator] \<and> threads s = []
            \<and> conf s = c \<and> history s = [Return (Some InvalidConfiguration)]"
  proof
    assume "\<exists>e. pc s = Returned (Some e)"
    then obtain e where e: "pc s = Returned (Some e)" ..
    from err [OF e] have bad: "Duration c \<le> 0" "Traces c \<le> 0" by simp_all
    from invalid [OF bad] e assms have "sched = [Coordinator]"
      and "s = (Run_init c tr lg)\<lparr>pc := Returned (Some InvalidConfiguration),
                  history := [Return (Some InvalidConfiguration)]\<rparr>"
      by (auto simp: Run_init_def)
    with bad show "Duration c \<le> 0 \<and> Traces c \<le> 0 \<and> sched = [Coordinator] \<and> threads s = []
            \<and> conf s = c \<and> history s = [Return (Some InvalidConfiguration)]"
      by (simp add: Run_init_def)
  qed
  have 2: "Duration c \<le> 0 \<and> Traces c \<le> 0 \<longrightarrow>
          exec [Coordinator] (Run_init c tr lg)
            = Some ((Run_init c tr lg)\<lparr>pc := Returned (Some InvalidConfiguration),
                      history := [Return (Some InvalidConfiguration)]\<rparr>)
          \<and> (sched = [] \<or> sched = [Coordinator]) \<and> pc s \<noteq> Returned None"
  proof
    assume b: "Duration c \<le> 0 \<and> Traces c \<le> 0"
    then have bad: "Duration c \<le> 0" "Traces c \<le> 0" by simp_all
    from invalid [OF bad] have "pc s \<noteq> Returned None"
      using assms by (auto simp: Run_init_def)
    with invalid [OF bad] invalid_first_step [OF bad, of Coordinator tr lg]
    show "exec [Coordinator] (Run_init c tr lg)
            = Some ((Run_init c tr lg)\<lparr>pc := Returned (Some InvalidConfiguration),
                      history := [Return (Some InvalidConfiguration)]\<rparr>)
          \<and> (sched = [] \<or> sched = [Coordinator]) \<and> pc s \<noteq> Returned None"
      by auto
  qed
  have 3: "0 < Duration c \<longrightarrow> (\<forall>e. pc s \<noteq> Returned (Some e))"
    using err by fastforce
  from 1 2 3 show ?thesis by (intro conjI)
qed

theorem Run_error_iff_invalid_witness:
  "exec [Coordinator] (Run_init invalid_scenario () (Logger () []))
     = Some ((Run_init invalid_scenario () (Logger () []))
              \<lparr>pc := Returned (Some InvalidConfiguration),
                history := [Return (Some InvalidConfiguration)]\<rparr>)
   \<and> Duration invalid_scenario \<le> 0 \<and> Traces invalid_scenario \<le> 0
   \<and> threads ((Run_init invalid_scenario () (Logger () []))
              \<lparr>pc := Returned (Some InvalidConfiguration),
                history := [Return (Some InvalidConfiguration)]\<rparr>) = []
   \<and> conf ((Run_init invalid_scenario () (Logger () []))
              \<lparr>pc := Returned (Some InvalidConfiguration),
                history := [Return (Some InvalidConfiguration)]\<rparr>) = invalid_scenario"
proof -
  have e: "exec [Coordinator] (Run_init invalid_scenario () (Logger () []))
     = Some ((Run_init invalid_scenario () (Logger () []))
              \<lparr>pc := Returned (Some InvalidConfiguration),
                history := [Return (Some InvalidConfiguration)]\<rparr>)"
    by (simp add: invalid_scenario_def eval_defs)
  from Run_error_iff_invalid [OF e] e show ?thesis by simp
qed

subsection \<open>C2\<close>

text \<open>
  C2. With \<open>c.Traces = N > 0\<close>, \<open>c.Duration = 0\<close> and \<open>c.Workers = W\<close>, when \<open>Run\<close> has
  returned the tracer has accepted exactly \<open>W * N\<close> traces for every worker count
  \<open>W \<ge> 0\<close> of the data model (\<open>max(W, 0) * N\<close> in general), each made of the root span
  \<open>lead\<close> and its children \<open>sub1\<close> and \<open>sub2\<close>, every span carrying the configured
  debug and firehose values. \<open>Run\<close> does return, and with success: no execution
  returns an error, every execution is at most \<open>5 + max(W, 0) * (3 * N + 2)\<close> steps
  long, as long as \<open>Run\<close> has not returned some thread can move, and from every state
  of the run some execution reaches the successful return.
\<close>

theorem count_mode_emits_all_traces:
  assumes "0 < Traces c" and "Duration c = 0" and "exec sched (Run_init c tr lg) = Some s"
  shows "(pc s = Returned None \<longrightarrow>
            emitted (history s)
              = replicate (nat (Workers c) * nat (Traces c))
                  [\<lparr>span_name = ''lead'', parent = None,
                     attr_debug = Debug c, attr_firehose = Firehose c\<rparr>,
                   \<lparr>span_name = ''sub1'', parent = Some ''lead'',
                     attr_debug = Debug c, attr_firehose = Firehose c\<rparr>,
                   \<lparr>span_name = ''sub2'', parent = Some ''lead'',
                     attr_debug = Debug c, attr_firehose = Firehose c\<rparr>]
            \<and> (0 \<le> Workers c \<longrightarrow>
                  int (length (emitted (history s))) = Workers c * Traces c))
    \<and> (\<forall>e. pc s \<noteq> Returned (Some e))
    \<and> int (length sched) \<le> 5 + int (nat (Workers c)) * (3 * Traces c + 2)
    \<and> ((\<forall>r. pc s \<noteq> Returned r) \<longrightarrow> (\<exists>a. step a s \<noteq> None))
    \<and> (\<exists>sched' s'. exec sched' s = Some s' \<and> pc s' = Returned None)"
proof -
  from assms(2) have d: "Duration c \<le> 0" by simp
  note inv = Run_inv_exec [OF assms(3)]
  then have fr: "inv_frame c tr lg s" and co: "inv_coord c s" and wg: "inv_wg s"
    and th: "inv_threads c tr lg s"
    and em: "inv_emit c s" and j: "inv_join s"
    by (simp_all add: Run_inv_def)
  note cnt = count_inv_exec [OF d assms(1,3)]
  from fr assms(1) have 2: "\<forall>e. pc s \<noteq> Returned (Some e)"
    by (auto simp: inv_frame_def)
  have 1: "pc s = Returned None \<longrightarrow>
            emitted (history s)
              = replicate (nat (Workers c) * nat (Traces c))
                  [\<lparr>span_name = ''lead'', parent = None,
                     attr_debug = Debug c, attr_firehose = Firehose c\<rparr>,
                   \<lparr>span_name = ''sub1'', parent = Some ''lead'',
                     attr_debug = Debug c, attr_firehose = Firehose c\<rparr>,
                   \<lparr>span_name = ''sub2'', parent = Some ''lead'',
                     attr_debug = Debug c, attr_firehose = Firehose c\<rparr>]
            \<and> (0 \<le> Workers c \<longrightarrow>
                  int (length (emitted (history s))) = Workers c * Traces c)"
  proof
    assume r: "pc s = Returned None"
    with co have len: "length (threads s) = nat (Workers c)" by (simp add: inv_coord_def)
    from j r cnt(1) have "\<forall>k < length (threads s). iterationCounter (threads s ! k) = Traces c"
      by (simp add: inv_join_def inv_count_def thread_ok_def)
    then have "total_iterations (threads s) = int (length (threads s)) * Traces c"
      unfolding total_iterations_def by (rule sum_list_const)
    with len have n: "nat (total_iterations (threads s)) = nat (Workers c) * nat (Traces c)"
      by (simp add: nat_mult_distrib)
    with em have e: "emitted (history s)
              = replicate (nat (Workers c) * nat (Traces c))
                  [\<lparr>span_name = ''lead'', parent = None,
                     attr_debug = Debug c, attr_firehose = Firehose c\<rparr>,
                   \<lparr>span_name = ''sub1'', parent = Some ''lead'',
                     attr_debug = Debug c, attr_firehose = Firehose c\<rparr>,
                   \<lparr>span_name = ''sub2'', parent = Some ''lead'',
                     attr_debug = Debug c, attr_firehose = Firehose c\<rparr>]"
      by (simp add: inv_emit_def synthetic_trace_def)
    have "int (length (emitted (history s))) = Workers c * Traces c" if "0 \<le> Workers c"
    proof -
      from e have "length (emitted (history s)) = nat (Workers c) * nat (Traces c)"
        by simp
      with that assms(1) show ?thesis by simp
    qed
    with e show "emitted (history s)
              = replicate (nat (Workers c) * nat (Traces c))
                  [\<lparr>span_name = ''lead'', parent = None,
                     attr_debug = Debug c, attr_firehose = Firehose c\<rparr>,
                   \<lparr>span_name = ''sub1'', parent = Some ''lead'',
                     attr_debug = Debug c, attr_firehose = Firehose c\<rparr>,
                   \<lparr>span_name = ''sub2'', parent = Some ''lead'',
                     attr_debug = Debug c, attr_firehose = Firehose c\<rparr>]
            \<and> (0 \<le> Workers c \<longrightarrow>
                  int (length (emitted (history s))) = Workers c * Traces c)"
      by (intro conjI impI)
  qed
  from potential_nonneg [OF co cnt(1) assms(1) 2] cnt(2)
  have 3: "int (length sched) \<le> 5 + int (nat (Workers c)) * (3 * Traces c + 2)"
    by linarith
  have 4: "(\<forall>r. pc s \<noteq> Returned r) \<longrightarrow> (\<exists>a. step a s \<noteq> None)"
    using progress [OF th wg] by blast
  note 5 = count_completes [OF d assms(1) inv cnt(1)]
  from 1 2 3 4 5 show ?thesis by (intro conjI)
qed

theorem count_mode_emits_all_traces_witness:
  "\<exists>s. exec count_schedule (Run_init count_scenario () (Logger () [])) = Some s
     \<and> 0 < Traces count_scenario \<and> Duration count_scenario = 0
     \<and> pc s = Returned None \<and> length (emitted (history s)) = 6
     \<and> set (emitted (history s))
         = {[\<lparr>span_name = ''lead'', parent = None, attr_debug = True, attr_firehose = False\<rparr>,
             \<lparr>span_name = ''sub1'', parent = Some ''lead'', attr_debug = True, attr_firehose = False\<rparr>,
             \<lparr>span_name = ''sub2'', parent = Some ''lead'', attr_debug = True, attr_firehose = False\<rparr>]}"
proof -
  have "\<exists>s. exec count_schedule (Run_init count_scenario () (Logger () [])) = Some s
      \<and> pc s = Returned None"
    by (simp add: count_schedule_def count_scenario_def eval_defs)
  then obtain s where e: "exec count_schedule (Run_init count_scenario () (Logger () [])) = Some s"
    and pc: "pc s = Returned None"
    by (elim exE conjE)
  have t: "0 < Traces count_scenario" and d: "Duration count_scenario = 0"
    by (simp_all add: count_scenario_def)
  note th = count_mode_emits_all_traces [OF t d e]
  from th pc have em: "emitted (history s)
      = replicate (nat (Workers count_scenario) * nat (Traces count_scenario))
          [\<lparr>span_name = ''lead'', parent = None,
             attr_debug = Debug count_scenario, attr_firehose = Firehose count_scenario\<rparr>,
           \<lparr>span_name = ''sub1'', parent = Some ''lead'',
             attr_debug = Debug count_scenario, attr_firehose = Firehose count_scenario\<rparr>,
           \<lparr>span_name = ''sub2'', parent = Some ''lead'',
             attr_debug = Debug count_scenario, attr_firehose = Firehose count_scenario\<rparr>]"
    by simp
  have n: "nat (Workers count_scenario) * nat (Traces count_scenario) = 6"
    by (simp add: count_scenario_def)
  from em have 1: "length (emitted (history s)) = 6"
    unfolding n by simp
  from em have 2: "set (emitted (history s))
         = {[\<lparr>span_name = ''lead'', parent = None, attr_debug = True, attr_firehose = False\<rparr>,
             \<lparr>span_name = ''sub1'', parent = Some ''lead'', attr_debug = True, attr_firehose = False\<rparr>,
             \<lparr>span_name = ''sub2'', parent = Some ''lead'', attr_debug = True, attr_firehose = False\<rparr>]}"
    unfolding n by (simp add: count_scenario_def)
  from e t d pc 1 2 show ?thesis by (intro exI [of _ s] conjI)
qed

subsection \<open>C3\<close>



subsection \<open>C4\<close>

text \<open>
  C4. When \<open>Run\<close> has returned success, all \<open>max(c.Workers, 0)\<close> workers have been
  started and every one of them has terminated, no thread can move any more, and the
  coordinator's actions were, in this order: initialise the flag, start the workers,
  in duration mode sleep and store the stop flag, wait, return. At line 85 the
  coordinator can move exactly when every started worker has terminated. The wait-group
  counter always equals the number of started workers that have not terminated.
\<close>

theorem Run_returns_after_workers:
  assumes "exec sched (Run_init c tr lg) = Some s"
  shows "(pc s = Returned None \<longrightarrow>
            length (threads s) = nat (Workers c)
            \<and> (\<forall>t \<in> set (threads s). phase t = Terminated)
            \<and> (\<forall>a. step a s = None)
            \<and> coordinator_events (history s)
                = Init_running 1 # concat (map (\<lambda>k. [Wg_add 1, Go (int k)]) [0..<nat (Workers c)])
                  @ (if 0 < Duration c then [Sleep (Duration c), Store_running 0] else [])
                  @ [Wg_wait, Return None])
    \<and> (pc s = L85 \<longrightarrow>
          (step Coordinator s \<noteq> None) = (\<forall>t \<in> set (threads s). phase t = Terminated))
    \<and> wg_local s = int (length (filter (\<lambda>t. phase t \<noteq> Terminated) (threads s)))"
proof -
  from Run_inv_exec [OF assms] have co: "inv_coord c s" and wg: "inv_wg s" and j: "inv_join s"
    by (simp_all add: Run_inv_def)
  have 1: "pc s = Returned None \<longrightarrow>
            length (threads s) = nat (Workers c)
            \<and> (\<forall>t \<in> set (threads s). phase t = Terminated)
            \<and> (\<forall>a. step a s = None)
            \<and> coordinator_events (history s)
                = Init_running 1 # concat (map (\<lambda>k. [Wg_add 1, Go (int k)]) [0..<nat (Workers c)])
                  @ (if 0 < Duration c then [Sleep (Duration c), Store_running 0] else [])
                  @ [Wg_wait, Return None]"
  proof
    assume r: "pc s = Returned None"
    with co have len: "length (threads s) = nat (Workers c)"
      and ev: "coordinator_events (history s)
        = Init_running 1 # spawn_events (nat (Workers c)) @ timer_events c @ [Wg_wait, Return None]"
      by (simp_all add: inv_coord_def)
    from j r have trm: "\<forall>t \<in> set (threads s). phase t = Terminated"
      by (simp add: inv_join_def all_terminated_iff)
    have "step a s = None" for a
    proof (cases a)
      case Coordinator
      with r show ?thesis by (simp add: step_def Run_step_def)
    next
      case (Worker k)
      with trm show ?thesis by (simp add: step_def terminated_no_step)
    qed
    with len ev trm
    show "length (threads s) = nat (Workers c)
            \<and> (\<forall>t \<in> set (threads s). phase t = Terminated)
            \<and> (\<forall>a. step a s = None)
            \<and> coordinator_events (history s)
                = Init_running 1 # concat (map (\<lambda>k. [Wg_add 1, Go (int k)]) [0..<nat (Workers c)])
                  @ (if 0 < Duration c then [Sleep (Duration c), Store_running 0] else [])
                  @ [Wg_wait, Return None]"
      by (simp add: spawn_events_def timer_events_def)
  qed
  have 2: "pc s = L85 \<longrightarrow>
          (step Coordinator s \<noteq> None) = (\<forall>t \<in> set (threads s). phase t = Terminated)"
  proof
    assume l: "pc s = L85"
    then have "(step Coordinator s \<noteq> None) = (wg_local s = 0)"
      by (simp add: step_def Run_step_def)
    also from wg have "\<dots> = (active (threads s) = 0)" by (simp add: inv_wg_def)
    finally show "(step Coordinator s \<noteq> None) = (\<forall>t \<in> set (threads s). phase t = Terminated)"
      by (simp add: active_zero all_terminated_iff)
  qed
  from wg have 3: "wg_local s = int (length (filter (\<lambda>t. phase t \<noteq> Terminated) (threads s)))"
    by (simp add: inv_wg_def active_filter)
  from 1 2 3 show ?thesis by (intro conjI)
qed

theorem Run_returns_after_workers_witness:
  "\<exists>s. exec duration_schedule (Run_init duration_scenario () (Logger () [])) = Some s
     \<and> pc s = Returned None \<and> length (threads s) = 4 \<and> wg_local s = 0
     \<and> filter (\<lambda>t. phase t \<noteq> Terminated) (threads s) = []"
proof -
  have "\<exists>s. exec duration_schedule (Run_init duration_scenario () (Logger () [])) = Some s
      \<and> pc s = Returned None"
    by (simp add: duration_schedule_def duration_scenario_def eval_defs)
  then obtain s where e: "exec duration_schedule (Run_init duration_scenario () (Logger () [])) = Some s"
    and pc: "pc s = Returned None"
    by (elim exE conjE)
  note th = Run_returns_after_workers [OF e]
  from th pc have 1: "length (threads s) = nat (Workers duration_scenario)"
    and 2: "\<forall>t \<in> set (threads s). phase t = Terminated"
    by simp_all
  from th have 3: "wg_local s = int (length (filter (\<lambda>t. phase t \<noteq> Terminated) (threads s)))"
    by simp
  from 1 have 4: "length (threads s) = 4" by (simp add: duration_scenario_def)
  from 2 have 5: "filter (\<lambda>t. phase t \<noteq> Terminated) (threads s) = []"
    by (simp add: filter_empty_conv)
  with 3 have 6: "wg_local s = 0" by simp
  from e pc 4 6 5 show ?thesis by (intro exI [of _ s] conjI)
qed

subsection \<open>C5\<close>

text \<open>
  C5. If \<open>c.Duration > 0\<close>, the first step of \<open>Run\<close> sets \<open>c.Traces\<close> to \<open>0\<close> and moves to
  line 61, whatever \<open>c.Traces\<close> was; from then on \<open>c.Traces\<close> is \<open>0\<close> and every worker
  is given the count \<open>0\<close>. If \<open>c.Duration \<le> 0\<close>, \<open>c.Traces\<close> keeps its value and every
  worker is given it. Before the first step there is no worker.
\<close>

theorem Run_normalises_traces:
  assumes "exec sched (Run_init c tr lg) = Some s"
  shows "(0 < Duration c \<longrightarrow>
            exec [Coordinator] (Run_init c tr lg)
              = Some ((Run_init c tr lg)\<lparr>conf := c\<lparr>Traces := 0\<rparr>, pc := L61\<rparr>)
            \<and> (pc s \<noteq> L55 \<longrightarrow> Traces (conf s) = 0)
            \<and> (\<forall>t \<in> set (threads s). traces (self t) = 0))
    \<and> (Duration c \<le> 0 \<longrightarrow>
            Traces (conf s) = Traces c \<and> (\<forall>t \<in> set (threads s). traces (self t) = Traces c))
    \<and> (pc s = L55 \<longrightarrow> threads s = [] \<and> conf s = c)"
proof -
  from Run_inv_exec [OF assms] have fr: "inv_frame c tr lg s" and co: "inv_coord c s"
    and th: "inv_threads c tr lg s"
    by (simp_all add: Run_inv_def)
  from th have tr: "traces (self t) = normalised c" if "t \<in> set (threads s)" for t
    using that by (auto simp: inv_threads_def in_set_conv_nth worker_of_def)
  have first: "exec [Coordinator] (Run_init c tr lg)
      = Some ((Run_init c tr lg)\<lparr>conf := c\<lparr>Traces := 0\<rparr>, pc := L61\<rparr>)" if "0 < Duration c"
    using that by (simp add: step_def Run_step_def Run_init_def)
  have 1: "0 < Duration c \<longrightarrow>
            exec [Coordinator] (Run_init c tr lg)
              = Some ((Run_init c tr lg)\<lparr>conf := c\<lparr>Traces := 0\<rparr>, pc := L61\<rparr>)
            \<and> (pc s \<noteq> L55 \<longrightarrow> Traces (conf s) = 0)
            \<and> (\<forall>t \<in> set (threads s). traces (self t) = 0)"
    using fr first by (simp add: inv_frame_def tr normalised_def)
  have 2: "Duration c \<le> 0 \<longrightarrow>
            Traces (conf s) = Traces c \<and> (\<forall>t \<in> set (threads s). traces (self t) = Traces c)"
    using fr by (simp add: inv_frame_def tr normalised_def)
  have 3: "pc s = L55 \<longrightarrow> threads s = [] \<and> conf s = c"
    using fr co by (auto simp: inv_frame_def inv_coord_def)
  from 1 2 3 show ?thesis by (intro conjI)
qed

theorem Run_normalises_traces_witness:
  "\<exists>s. exec [Coordinator, Coordinator, Coordinator] (Run_init overriding_scenario () (Logger () []))
         = Some s
     \<and> 0 < Duration overriding_scenario \<and> Traces overriding_scenario = 5
     \<and> Traces (conf s) = 0 \<and> map (\<lambda>t. traces (self t)) (threads s) = [0]"
proof -
  have "\<exists>s. exec [Coordinator, Coordinator, Coordinator]
      (Run_init overriding_scenario () (Logger () [])) = Some s \<and> pc s = L63
      \<and> length (threads s) = 1"
    by (simp add: overriding_scenario_def eval_defs)
  then obtain s where e: "exec [Coordinator, Coordinator, Coordinator]
      (Run_init overriding_scenario () (Logger () [])) = Some s" and pc: "pc s = L63"
    and len: "length (threads s) = 1"
    by blast
  from len obtain t where t: "threads s = [t]"
    by (cases "threads s") auto
  have d: "0 < Duration overriding_scenario" "Traces overriding_scenario = 5"
    by (simp_all add: overriding_scenario_def)
  from Run_normalises_traces [OF e] d(1)
  have 1: "pc s \<noteq> L55 \<longrightarrow> Traces (conf s) = 0"
    and 2: "\<forall>t \<in> set (threads s). traces (self t) = 0"
    by blast+
  from 1 pc have 3: "Traces (conf s) = 0" by simp
  from 2 t have 4: "map (\<lambda>t. traces (self t)) (threads s) = [0]" by simp
  from e d 3 4 show ?thesis by (intro exI [of _ s] conjI)
qed

subsection \<open>C6\<close>

text \<open>
  C6. At the loop condition a worker enters an iteration exactly when its planned count
  is \<open>0\<close> and the flag is true, or its counter is below the planned count; otherwise
  it terminates. A count-mode worker started with at least \<open>3 * planned + 1\<close> steps to
  run emits exactly its planned number of traces and terminates, whatever values the flag
  takes. A duration-mode worker that finds the flag false from now on terminates within
  three steps, emitting exactly the trace of the iteration it was in, if it was in one;
  while the flag stays true it does not terminate.
\<close>

theorem worker_loop_policy:
  "(phase t = Check \<longrightarrow>
      simulateTraces_step flag t
        = Some (if (traces (self t) = 0 \<and> flag = 1) \<or> iterationCounter t < traces (self t)
                then (t\<lparr>phase := InFlight\<rparr>, [])
                else (t\<lparr>phase := Terminated\<rparr>, [Wg_done (id_w (self t))])))
   \<and> (0 < traces (self t) \<and> phase t = Check \<and> iterationCounter t = 0
        \<and> 3 * nat (traces (self t)) + 1 \<le> length flags \<longrightarrow>
      simulateTraces flags t
        = (t\<lparr>iterationCounter := traces (self t), phase := Terminated\<rparr>,
           replicate (nat (traces (self t)))
             (Emit (id_w (self t)) (synthetic_trace (debug (self t)) (firehose (self t))))
           @ [Wg_done (id_w (self t))]))
   \<and> (traces (self t) = 0 \<and> 0 \<le> iterationCounter t \<and> phase t \<noteq> Terminated
        \<and> (\<forall>f \<in> set flags. f \<noteq> 1) \<and> 3 \<le> length flags \<longrightarrow>
      phase (fst (simulateTraces flags t)) = Terminated
      \<and> emitted (snd (simulateTraces flags t))
          = (if phase t = InFlight then [synthetic_trace (debug (self t)) (firehose (self t))]
             else []))
   \<and> (traces (self t) = 0 \<and> phase t \<noteq> Terminated \<and> (\<forall>f \<in> set flags. f = 1) \<longrightarrow>
      phase (fst (simulateTraces flags t)) \<noteq> Terminated)"
proof (intro conjI impI)
  assume "phase t = Check"
  then show "simulateTraces_step flag t
        = Some (if (traces (self t) = 0 \<and> flag = 1) \<or> iterationCounter t < traces (self t)
                then (t\<lparr>phase := InFlight\<rparr>, [])
                else (t\<lparr>phase := Terminated\<rparr>, [Wg_done (id_w (self t))]))"
    by (simp add: simulateTraces_step_def loop_condition_def)
next
  assume a: "0 < traces (self t) \<and> phase t = Check \<and> iterationCounter t = 0
        \<and> 3 * nat (traces (self t)) + 1 \<le> length flags"
  then show "simulateTraces flags t
        = (t\<lparr>iterationCounter := traces (self t), phase := Terminated\<rparr>,
           replicate (nat (traces (self t)))
             (Emit (id_w (self t)) (synthetic_trace (debug (self t)) (firehose (self t))))
           @ [Wg_done (id_w (self t))])"
    by (intro simulateTraces_count) simp_all
next
  assume a: "traces (self t) = 0 \<and> 0 \<le> iterationCounter t \<and> phase t \<noteq> Terminated
        \<and> (\<forall>f \<in> set flags. f \<noteq> 1) \<and> 3 \<le> length flags"
  with simulateTraces_stop [of t flags]
  show "phase (fst (simulateTraces flags t)) = Terminated"
    and "emitted (snd (simulateTraces flags t))
          = (if phase t = InFlight then [synthetic_trace (debug (self t)) (firehose (self t))]
             else [])"
    by simp_all
next
  assume "traces (self t) = 0 \<and> phase t \<noteq> Terminated \<and> (\<forall>f \<in> set flags. f = 1)"
  then show "phase (fst (simulateTraces flags t)) \<noteq> Terminated"
    by (intro simulateTraces_runs) simp_all
qed

theorem worker_loop_policy_witness:
  "simulateTraces [0, 0, 0, 0, 0, 0, 0] count_worker
     = (count_worker\<lparr>iterationCounter := 2, phase := Terminated\<rparr>,
        [Emit 0 (synthetic_trace True False), Emit 0 (synthetic_trace True False), Wg_done 0])
   \<and> phase (fst (simulateTraces [0, 0, 0] duration_worker)) = Terminated
   \<and> emitted (snd (simulateTraces [0, 0, 0] duration_worker)) = [synthetic_trace False False]
   \<and> phase (fst (simulateTraces [1, 1, 1, 1, 1, 1] duration_worker)) \<noteq> Terminated"
proof -
  have c: "0 < traces (self count_worker) \<and> phase count_worker = Check
      \<and> iterationCounter count_worker = 0
      \<and> 3 * nat (traces (self count_worker)) + 1 \<le> length [0, 0, 0, 0, 0, 0, 0 :: 32 word]"
    by (simp add: count_worker_def)
  have d: "traces (self duration_worker) = 0 \<and> 0 \<le> iterationCounter duration_worker
      \<and> phase duration_worker \<noteq> Terminated \<and> (\<forall>f \<in> set [0, 0, 0 :: 32 word]. f \<noteq> 1)
      \<and> 3 \<le> length [0, 0, 0 :: 32 word]"
    by (simp add: duration_worker_def)
  have r: "traces (self duration_worker) = 0 \<and> phase duration_worker \<noteq> Terminated
      \<and> (\<forall>f \<in> set [1, 1, 1, 1, 1, 1 :: 32 word]. f = 1)"
    by (simp add: duration_worker_def)
  from worker_loop_policy [of count_worker 0 "[0, 0, 0, 0, 0, 0, 0]"] c
  have "simulateTraces [0, 0, 0, 0, 0, 0, 0] count_worker
     = (count_worker\<lparr>iterationCounter := traces (self count_worker), phase := Terminated\<rparr>,
        replicate (nat (traces (self count_worker)))
          (Emit (id_w (self count_worker))
            (synthetic_trace (debug (self count_worker)) (firehose (self count_worker))))
        @ [Wg_done (id_w (self count_worker))])"
    by blast
  also have "\<dots> = (count_worker\<lparr>iterationCounter := 2, phase := Terminated\<rparr>,
        [Emit 0 (synthetic_trace True False), Emit 0 (synthetic_trace True False), Wg_done 0])"
    by (simp add: count_worker_def numeral_2_eq_2)
  finally have 1: "simulateTraces [0, 0, 0, 0, 0, 0, 0] count_worker
     = (count_worker\<lparr>iterationCounter := 2, phase := Terminated\<rparr>,
        [Emit 0 (synthetic_trace True False), Emit 0 (synthetic_trace True False), Wg_done 0])" .
  from worker_loop_policy [of duration_worker 0 "[0, 0, 0]"] d
  have "phase (fst (simulateTraces [0, 0, 0] duration_worker)) = Terminated
      \<and> emitted (snd (simulateTraces [0, 0, 0] duration_worker))
          = (if phase duration_worker = InFlight
             then [synthetic_trace (debug (self duration_worker)) (firehose (self duration_worker))]
             else [])"
    by blast
  then have 2: "phase (fst (simulateTraces [0, 0, 0] duration_worker)) = Terminated"
    and "emitted (snd (simulateTraces [0, 0, 0] duration_worker))
          = (if phase duration_worker = InFlight
             then [synthetic_trace (debug (self duration_worker)) (firehose (self duration_worker))]
             else [])"
    by (rule conjunct1, rule conjunct2)
  moreover have "(if phase duration_worker = InFlight
             then [synthetic_trace (debug (self duration_worker)) (firehose (self duration_worker))]
             else []) = [synthetic_trace False False]"
    by (simp add: duration_worker_def)
  ultimately have 3: "emitted (snd (simulateTraces [0, 0, 0] duration_worker))
      = [synthetic_trace False False]"
    by (simp only:)
  from worker_loop_policy [of duration_worker 0 "[1, 1, 1, 1, 1, 1]"] r
  have 4: "phase (fst (simulateTraces [1, 1, 1, 1, 1, 1] duration_worker)) \<noteq> Terminated"
    by blast
  from 1 2 3 4 show ?thesis by (intro conjI)
qed

subsection \<open>C7\<close>



subsection \<open>C8\<close>

text \<open>
  C8. On a flag set that defines none of the eight names, \<open>Flags\<close> adds exactly the
  options \<open>workers\<close> (default 1), \<open>traces\<close> (1), \<open>debug\<close> (false), \<open>firehose\<close> (false),
  \<open>pause\<close> (1000 ns), \<open>duration\<close> (0), \<open>service\<close> (\<open>tracegen\<close>) and \<open>trace-exporter\<close>
  (\<open>jaeger\<close>), in this order, and stores each default in its field. No option is bound
  to \<open>Marshal\<close>, and \<open>Marshal\<close> keeps the value it had.
\<close>

theorem Flags_registers:
  "set (map Name fs) \<inter> {''workers'', ''traces'', ''debug'', ''firehose'', ''pause'', ''duration'',
       ''service'', ''trace-exporter''} = {} \<Longrightarrow>
   \<exists>c' fs'. Flags c fs = Inr (c', fs @ fs')
     \<and> options fs' =
         [(''workers'', IntValue Workers_ptr 1), (''traces'', IntValue Traces_ptr 1),
          (''debug'', BoolValue Debug_ptr False), (''firehose'', BoolValue Firehose_ptr False),
          (''pause'', DurationValue Pause_ptr 1000), (''duration'', DurationValue Duration_ptr 0),
          (''service'', StringValue Service_ptr ''tracegen''),
          (''trace-exporter'', StringValue TraceExporter_ptr ''jaeger'')]
     \<and> c' = c\<lparr>Workers := 1, Traces := 1, Debug := False, Firehose := False, Pause := 1000,
              Duration := 0, Service := ''tracegen'', TraceExporter := ''jaeger''\<rparr>
     \<and> Marshal c' = Marshal c
     \<and> (\<forall>v. BoolValue Marshal_ptr v \<notin> set (map Value fs'))"
  by (simp add: Flags_def andThen_def IntVar_def BoolVar_def DurationVar_def StringVar_def Var_def
      options_def Microsecond_def)

theorem Flags_registers_witness:
  "\<exists>c' fs'. Flags overriding_scenario [] = Inr (c', fs')
     \<and> map fst (options fs') = [''workers'', ''traces'', ''debug'', ''firehose'', ''pause'',
          ''duration'', ''service'', ''trace-exporter'']
     \<and> Marshal c' = True"
proof -
  have "set (map Name ([] :: FlagSet)) \<inter> {''workers'', ''traces'', ''debug'', ''firehose'',
      ''pause'', ''duration'', ''service'', ''trace-exporter''} = {}"
    by simp
  from Flags_registers [OF this, of overriding_scenario]
  obtain c' fs' where "Flags overriding_scenario [] = Inr (c', fs')"
    and "options fs' =
         [(''workers'', IntValue Workers_ptr 1), (''traces'', IntValue Traces_ptr 1),
          (''debug'', BoolValue Debug_ptr False), (''firehose'', BoolValue Firehose_ptr False),
          (''pause'', DurationValue Pause_ptr 1000), (''duration'', DurationValue Duration_ptr 0),
          (''service'', StringValue Service_ptr ''tracegen''),
          (''trace-exporter'', StringValue TraceExporter_ptr ''jaeger'')]"
    and "Marshal c' = Marshal overriding_scenario"
    by auto
  then show ?thesis
    by (simp add: overriding_scenario_def)
qed

subsection \<open>C9\<close>

text \<open>
  C9. In every state of a run the configuration differs from the one \<open>Run\<close> was called
  with in the field \<open>Traces\<close> at most; \<open>Traces\<close> is \<open>0\<close> once the first step is done and
  \<open>c.Duration > 0\<close>, and otherwise has the caller's value; when an error has been
  returned the configuration is the caller's.
\<close>

theorem Run_frame:
  assumes "exec sched (Run_init c tr lg) = Some s"
  shows "(conf s)\<lparr>Traces := Traces c\<rparr> = c
    \<and> Traces (conf s) = (if 0 < Duration c \<and> pc s \<noteq> L55 then 0 else Traces c)
    \<and> ((\<exists>e. pc s = Returned (Some e)) \<longrightarrow> conf s = c)"
proof -
  from Run_inv_exec [OF assms] have fr: "inv_frame c tr lg s" by (simp add: Run_inv_def)
  then have "conf s = (if Duration c > 0 \<and> pc s \<noteq> L55 then c\<lparr>Traces := 0\<rparr> else c)"
    and "\<And>e. pc s = Returned (Some e) \<Longrightarrow> Duration c \<le> 0"
    by (auto simp: inv_frame_def)
  then show ?thesis by auto
qed

theorem Run_frame_witness:
  "\<exists>s. exec [Coordinator, Coordinator, Coordinator] (Run_init overriding_scenario () (Logger () []))
         = Some s
     \<and> conf s = overriding_scenario\<lparr>Traces := 0\<rparr>"
proof -
  have "\<exists>s. exec [Coordinator, Coordinator, Coordinator]
      (Run_init overriding_scenario () (Logger () [])) = Some s \<and> pc s = L63"
    by (simp add: overriding_scenario_def eval_defs)
  then obtain s where e: "exec [Coordinator, Coordinator, Coordinator]
      (Run_init overriding_scenario () (Logger () [])) = Some s" and pc: "pc s = L63"
    by blast
  from Run_frame [OF e] pc have "conf s = overriding_scenario\<lparr>Traces := 0\<rparr>"
    by (cases "conf s") (simp add: overriding_scenario_def)
  with e show ?thesis by (intro exI [of _ s] conjI)
qed

subsection \<open>C10\<close>

text \<open>
  C10. With \<open>c.Workers \<le> 0\<close> and a valid configuration no worker is ever started, no
  trace is ever emitted and no error is returned. When \<open>Run\<close> has returned, all that
  happened is: the flag was initialised, in duration mode the coordinator slept for
  \<open>c.Duration\<close> and stored the stop flag, it waited and returned success. The coordinator
  alone reaches that return, in six steps in duration mode and five in count mode.
\<close>

theorem Run_without_workers:
  assumes "Workers c \<le> 0" and "0 < Duration c \<or> 0 < Traces c"
    and "exec sched (Run_init c tr lg) = Some s"
  shows "threads s = [] \<and> emitted (history s) = []
    \<and> (\<forall>e. pc s \<noteq> Returned (Some e))
    \<and> (pc s = Returned None \<longrightarrow>
          history s = Init_running 1
            # (if 0 < Duration c then [Sleep (Duration c), Store_running 0] else [])
            @ [Wg_wait, Return None])
    \<and> (\<exists>s'. exec (if 0 < Duration c
                   then [Coordinator, Coordinator, Coordinator, Coordinator, Coordinator, Coordinator]
                   else [Coordinator, Coordinator, Coordinator, Coordinator, Coordinator])
               (Run_init c tr lg) = Some s'
            \<and> pc s' = Returned None)"
proof -
  from Run_inv_exec [OF assms(3)] have fr: "inv_frame c tr lg s" and co: "inv_coord c s"
    and em: "inv_emit c s" and q: "inv_quiet s"
    by (simp_all add: Run_inv_def)
  from length_at_most [OF co] assms(1) have 1: "threads s = []" by simp
  with em have 2: "emitted (history s) = []"
    by (simp add: inv_emit_def total_iterations_def)
  from fr assms(2) have 3: "\<forall>e. pc s \<noteq> Returned (Some e)"
    by (auto simp: inv_frame_def)
  have 4: "pc s = Returned None \<longrightarrow>
          history s = Init_running 1
            # (if 0 < Duration c then [Sleep (Duration c), Store_running 0] else [])
            @ [Wg_wait, Return None]"
  proof
    assume "pc s = Returned None"
    with co 1 have "coordinator_events (history s)
        = Init_running 1 # timer_events c @ [Wg_wait, Return None]"
      by (simp add: inv_coord_def)
    with q 1 show "history s = Init_running 1
            # (if 0 < Duration c then [Sleep (Duration c), Store_running 0] else [])
            @ [Wg_wait, Return None]"
      by (simp add: inv_quiet_def timer_events_def)
  qed
  have 5: "\<exists>s'. exec (if 0 < Duration c
                   then [Coordinator, Coordinator, Coordinator, Coordinator, Coordinator, Coordinator]
                   else [Coordinator, Coordinator, Coordinator, Coordinator, Coordinator])
               (Run_init c tr lg) = Some s'
            \<and> pc s' = Returned None"
  proof (cases "0 < Duration c")
    case True
    with assms(1) show ?thesis by (simp add: step_def Run_step_def Run_init_def)
  next
    case False
    with assms(2) have "0 < Traces c" by simp
    with False assms(1) show ?thesis by (simp add: step_def Run_step_def Run_init_def)
  qed
  from 1 2 3 4 5 show ?thesis by (intro conjI)
qed

theorem Run_without_workers_witness:
  "\<exists>s. exec [Coordinator, Coordinator, Coordinator, Coordinator, Coordinator]
         (Run_init negative_workers_scenario () (Logger () [])) = Some s
     \<and> Workers negative_workers_scenario \<le> 0 \<and> 0 < Traces negative_workers_scenario
     \<and> pc s = Returned None \<and> threads s = [] \<and> emitted (history s) = []
     \<and> history s = [Init_running 1, Wg_wait, Return None]"
proof -
  have "\<exists>s. exec [Coordinator, Coordinator, Coordinator, Coordinator, Coordinator]
         (Run_init negative_workers_scenario () (Logger () [])) = Some s \<and> pc s = Returned None"
    by (simp add: negative_workers_scenario_def eval_defs)
  then obtain s where e: "exec [Coordinator, Coordinator, Coordinator, Coordinator, Coordinator]
         (Run_init negative_workers_scenario () (Logger () [])) = Some s"
    and pc: "pc s = Returned None"
    by (elim exE conjE)
  have w: "Workers negative_workers_scenario \<le> 0" and t: "0 < Traces negative_workers_scenario"
    and d: "\<not> 0 < Duration negative_workers_scenario"
    by (simp_all add: negative_workers_scenario_def)
  from t have v: "0 < Duration negative_workers_scenario \<or> 0 < Traces negative_workers_scenario" ..
  note th = Run_without_workers [OF w v e]
  from th have 1: "threads s = []" and 2: "emitted (history s) = []" by simp_all
  from th pc d have 3: "history s = [Init_running 1, Wg_wait, Return None]" by simp
  from e w t pc 1 2 3 show ?thesis by (intro exI [of _ s] conjI)
qed

end
